theory Spec2Isabelle
  imports Main "HOL-Library.Multiset"
begin

section \<open>JavaScript values used by server.js\<close>

text \<open>
  A JavaScript number as far as server.js computes with one: an integer, or NaN (what
  \<^verbatim>\<open>parseInt\<close> returns on a string with no leading digits). Comparisons with NaN
  are false, and \<^verbatim>\<open>Math.max\<close> of NaN is NaN.
\<close>

datatype jsnumber = NaN | Number int

fun js_lt :: "jsnumber \<Rightarrow> jsnumber \<Rightarrow> bool" where
  "js_lt (Number a) (Number b) = (a < b)"
| "js_lt _ _ = False"

fun js_ge :: "jsnumber \<Rightarrow> jsnumber \<Rightarrow> bool" where
  "js_ge (Number a) (Number b) = (a \<ge> b)"
| "js_ge _ _ = False"

fun Math_max :: "jsnumber \<Rightarrow> jsnumber \<Rightarrow> jsnumber" where
  "Math_max (Number a) (Number b) = Number (max a b)"
| "Math_max _ _ = NaN"

subsection \<open>Strings\<close>

text \<open>
  Strings are byte lists. White space is the ASCII part of what \<^verbatim>\<open>trim\<close> and
  \<^verbatim>\<open>parseInt\<close> skip: tab, line feed, vertical tab, form feed, carriage return, space.
  JavaScript also skips the white space outside ASCII (U+00A0, U+FEFF, U+2028 and the
  like), which is several bytes here and is kept: on text made of such characters only,
  \<^verbatim>\<open>trim\<close> returns the empty string where \<open>trim\<close> below does not.
\<close>

definition isSpace :: "char \<Rightarrow> bool" where
  "isSpace c = (c \<in> set [CHR 0x09, CHR 0x0A, CHR 0x0B, CHR 0x0C, CHR 0x0D, CHR 0x20])"

definition isDigit :: "char \<Rightarrow> bool" where
  "isDigit c = (c \<in> set ''0123456789'')"

definition trimStart :: "string \<Rightarrow> string" where
  "trimStart s = dropWhile isSpace s"

definition trim :: "string \<Rightarrow> string" where
  "trim s = rev (dropWhile isSpace (rev (dropWhile isSpace s)))"

fun startsWith :: "string \<Rightarrow> string \<Rightarrow> bool" where
  "startsWith s [] = True"
| "startsWith [] (p # ps) = False"
| "startsWith (c # cs) (p # ps) = (c = p \<and> startsWith cs ps)"

text \<open>\<^verbatim>\<open>s.includes(sub)\<close>: \<open>sub\<close> occurs in \<open>s\<close> as a contiguous block.\<close>

fun str_includes :: "string \<Rightarrow> string \<Rightarrow> bool" where
  "str_includes [] sub = (sub = [])"
| "str_includes (c # cs) sub = (startsWith (c # cs) sub \<or> str_includes cs sub)"

definition digitVal :: "char \<Rightarrow> int" where
  "digitVal c = int (of_char c) - 48"

definition digitsVal :: "string \<Rightarrow> int" where
  "digitsVal ds = foldl (\<lambda>a c. 10 * a + digitVal c) 0 ds"

text \<open>
  \<^verbatim>\<open>parseInt(s, 10)\<close> on a string: skip leading white space, read an optional sign, take
  the longest prefix of decimal digits; NaN when that prefix is empty. The value is the
  exact integer the digits denote (JavaScript rounds it to a double above \<open>2^53\<close>).
\<close>

definition parseDigits :: "string \<Rightarrow> jsnumber" where
  "parseDigits s =
     (let z = takeWhile isDigit s in if z = [] then NaN else Number (digitsVal z))"

definition parseInt10 :: "string \<Rightarrow> jsnumber" where
  "parseInt10 s =
     (case trimStart s of
        [] \<Rightarrow> NaN
      | c # cs \<Rightarrow>
          if c = CHR ''-'' then (case parseDigits cs of NaN \<Rightarrow> NaN | Number n \<Rightarrow> Number (- n))
          else if c = CHR ''+'' then parseDigits cs
          else parseDigits (c # cs))"

section \<open>Items\<close>

text \<open>
  The object pushed by \<^verbatim>\<open>extractTweetsFromPage\<close> (server.js 219-227). The field
  \<^verbatim>\<open>text\<close> of the source is \<open>tweetText\<close> here. \<open>timestamp\<close> is \<open>None\<close> for
  \<^verbatim>\<open>null\<close>.
\<close>

record tweet =
  displayName :: string
  handle :: string
  tweetText :: string
  link :: string
  likes :: jsnumber
  verified :: bool
  timestamp :: "string option"

section \<open>The Map of the merge step\<close>

text \<open>
  A JavaScript \<^verbatim>\<open>Map\<close> keeps its entries in insertion order: an association list.
  \<^verbatim>\<open>set\<close> on a key that is present replaces the value where the key stands; on a new
  key it appends the entry.
\<close>

fun map_has :: "'k \<Rightarrow> ('k \<times> 'v) list \<Rightarrow> bool" where
  "map_has k [] = False"
| "map_has k ((k', v') # m) = (k = k' \<or> map_has k m)"

fun map_set :: "'k \<Rightarrow> 'v \<Rightarrow> ('k \<times> 'v) list \<Rightarrow> ('k \<times> 'v) list" where
  "map_set k v [] = [(k, v)]"
| "map_set k v ((k', v') # m) = (if k = k' then (k', v) # m else (k', v') # map_set k v m)"

definition map_new :: "('k \<times> 'v) list \<Rightarrow> ('k \<times> 'v) list" where
  "map_new entries = foldl (\<lambda>m (k, v). map_set k v m) [] entries"

definition map_values :: "('k \<times> 'v) list \<Rightarrow> 'v list" where
  "map_values m = map snd m"

text \<open>
  server.js 352-356:
  \<^verbatim>\<open>const map = new Map(tweets.map(t => [t.link, t]));
  newTweets.forEach(t => { if (t.link && !map.has(t.link)) map.set(t.link, t); });
  tweets = Array.from(map.values());\<close>
\<close>

definition merge_step :: "(string \<times> tweet) list \<Rightarrow> tweet \<Rightarrow> (string \<times> tweet) list" where
  "merge_step m t = (if link t \<noteq> [] \<and> \<not> map_has (link t) m then map_set (link t) t m else m)"

definition merge :: "tweet list \<Rightarrow> tweet list \<Rightarrow> tweet list" where
  "merge tweets newTweets =
     map_values (foldl merge_step (map_new (map (\<lambda>t. (link t, t)) tweets)) newTweets)"


text \<open>
  What the merge does, written as a list function: the running list keeps its items and
  its order, and an item of the batch is appended when its link is non-empty and new.
  \<open>merge\<close> is proved equal to it on a list with unique links (\<open>merge_distinct_eq\<close>).
\<close>

fun merge_list :: "tweet list \<Rightarrow> tweet list \<Rightarrow> tweet list" where
  "merge_list ts [] = ts"
| "merge_list ts (n # ns) =
     merge_list (if link n \<noteq> [] \<and> link n \<notin> set (map link ts) then ts @ [n] else ts) ns"

text \<open>The invariant of the Map: keys are unique and every value sits under its own link.\<close>

definition keyed :: "(string \<times> tweet) list \<Rightarrow> bool" where
  "keyed m = (distinct (map fst m) \<and> list_all (\<lambda>(k, t). k = link t) m)"

section \<open>The document as the page scripts read it\<close>

text \<open>
  An article is modelled by what the queries of \<^verbatim>\<open>extractTweetsFromPage\<close> return on it.
  \<^item> \<open>raises\<close>: some DOM access inside the \<^verbatim>\<open>try\<close> block throws on this article
    (the \<^verbatim>\<open>catch\<close> of line 229 then skips it);
  \<^item> \<open>tweetTextEl\<close>: \<^verbatim>\<open>innerText\<close> of the first \<^verbatim>\<open>[data-testid="tweetText"]\<close>, if any;
  \<^item> \<open>anchorHrefs\<close>: the \<^verbatim>\<open>href\<close> of every \<^verbatim>\<open>a[href]\<close>, in document order;
  \<^item> \<open>authorName\<close>, \<open>authorHandle\<close>: the values lines 139-202 leave in
    \<^verbatim>\<open>displayName\<close> and \<^verbatim>\<open>handle\<close> (the profile-anchor heuristics read the article
    only, and write nothing else);
  \<^item> \<open>likeBtn\<close>: the first \<^verbatim>\<open>[data-testid="like"]\<close> element, if any;
  \<^item> \<open>iconVerified\<close>: a \<^verbatim>\<open>[data-testid="icon-verified"]\<close> element exists;
  \<^item> \<open>timeEl\<close>: the first \<^verbatim>\<open>time\<close> element, if any.
  An attribute that is absent (\<^verbatim>\<open>getAttribute\<close> returns null) is \<open>None\<close>.
\<close>

record likeControl =
  ariaLabel :: "string option"
  likeInnerText :: string

record timeElement =
  datetime :: "string option"
  timeInnerText :: string

record article =
  raises :: bool
  tweetTextEl :: "string option"
  anchorHrefs :: "string list"
  authorName :: string
  authorHandle :: string
  likeBtn :: "likeControl option"
  iconVerified :: bool
  timeEl :: "timeElement option"

text \<open>
  A document snapshot, as one \<^verbatim>\<open>page.evaluate\<close> sees it: the body's \<^verbatim>\<open>innerText\<close>
  (\<open>None\<close> when there is no body), whether the selectors of lines 108, 288, 289, 290
  match, and the articles in document order.
\<close>

record page =
  bodyInnerText :: "string option"
  loginElement :: bool
  homeLink :: bool
  profileLink :: bool
  timelineDiv :: bool
  articles :: "article list"

definition toLowerChar :: "char \<Rightarrow> char" where
  "toLowerChar c =
     (case map_of (zip ''ABCDEFGHIJKLMNOPQRSTUVWXYZ'' ''abcdefghijklmnopqrstuvwxyz'') c of
        None \<Rightarrow> c | Some d \<Rightarrow> d)"

definition toLowerCase :: "string \<Rightarrow> string" where
  "toLowerCase s = map toLowerChar s"

text \<open>\<^verbatim>\<open>a || b\<close> on strings, \<open>None\<close> being null: the first that is neither null nor empty.\<close>

definition str_or :: "string option \<Rightarrow> string option \<Rightarrow> string option" where
  "str_or a b = (case a of None \<Rightarrow> b | Some s \<Rightarrow> if s = [] then b else Some s)"

text \<open>server.js 99-114.\<close>

definition isBlockedOrLoginPage :: "page \<Rightarrow> bool" where
  "isBlockedOrLoginPage pg =
     (let bodyText = (case str_or (bodyInnerText pg) (Some []) of None \<Rightarrow> [] | Some s \<Rightarrow> s);
          lower = toLowerCase bodyText
      in if str_includes lower ''log in'' \<and>
            (str_includes lower ''twitter'' \<or> str_includes lower ''x.com'') then True
         else if str_includes lower ''sign up'' \<and>
            (str_includes lower ''twitter'' \<or> str_includes lower ''x.com'') then True
         else if str_includes lower ''rate limit'' \<or> str_includes lower ''too many requests''
           then True
         else if str_includes lower ''you are only seeing'' \<or>
            str_includes lower ''to view this page'' then True
         else if loginElement pg then True
         else False)"

text \<open>server.js 286-295, the function evaluated into \<^verbatim>\<open>loggedIn\<close>.\<close>

definition loggedIn :: "page \<Rightarrow> bool" where
  "loggedIn pg =
     (if homeLink pg then True
      else if profileLink pg then True
      else if timelineDiv pg then True
      else (let body = (case bodyInnerText pg of None \<Rightarrow> [] | Some s \<Rightarrow> toLowerCase s)
            in if str_includes body ''log in'' \<or> str_includes body ''sign up'' \<or>
                  str_includes body ''password'' then False
               else False))"

section \<open>extractTweetsFromPage\<close>

definition isDigitOrComma :: "char \<Rightarrow> bool" where
  "isDigitOrComma c = (isDigit c \<or> c = CHR '','')"

text \<open>\<^verbatim>\<open>aria.match(/[\d,]+/)\<close>: the leftmost, longest run of digits and commas; \<open>None\<close> for null.\<close>

definition matchDigitsCommas :: "string \<Rightarrow> string option" where
  "matchDigitsCommas s =
     (let r = dropWhile (\<lambda>c. \<not> isDigitOrComma c) s
      in if r = [] then None else Some (takeWhile isDigitOrComma r))"

text \<open>server.js 205-211.\<close>

definition extractLikes :: "likeControl option \<Rightarrow> jsnumber" where
  "extractLikes btn =
     (case btn of
        None \<Rightarrow> Number 0
      | Some b \<Rightarrow>
          (let aria = (case str_or (str_or (ariaLabel b) (Some (likeInnerText b))) (Some []) of
                         None \<Rightarrow> [] | Some s \<Rightarrow> s)
           in case matchDigitsCommas aria of
                None \<Rightarrow> Number 0
              | Some m0 \<Rightarrow> parseInt10 (filter (\<lambda>c. c \<noteq> CHR '','') m0)))"

text \<open>server.js 214-216.\<close>

definition extractTimestamp :: "timeElement option \<Rightarrow> string option" where
  "extractTimestamp el =
     (case el of
        None \<Rightarrow> None
      | Some te \<Rightarrow> str_or (str_or (datetime te) (Some (timeInnerText te))) None)"

text \<open>Lines 132-133: the trimmed text of the tweet-text element, empty when there is none.\<close>

definition articleText :: "article \<Rightarrow> string" where
  "articleText a = (case tweetTextEl a of None \<Rightarrow> [] | Some s \<Rightarrow> trim s)"

text \<open>
  Lines 136-137: the first anchor whose \<^verbatim>\<open>href\<close> contains \<^verbatim>\<open>/status/\<close> gives the
  permalink; empty when there is none.
\<close>

definition statusLink :: "article \<Rightarrow> string" where
  "statusLink a =
     (case find (\<lambda>h. str_includes h ''/status/'') (anchorHrefs a) of
        None \<Rightarrow> []
      | Some h \<Rightarrow> ''https://twitter.com'' @ h)"

text \<open>The body of the \<^verbatim>\<open>forEach\<close> of server.js 129-232: the item pushed, if one is.\<close>

definition extractArticle :: "article \<Rightarrow> tweet option" where
  "extractArticle a =
     (if raises a then None
      else if articleText a \<noteq> [] \<and> statusLink a \<noteq> []
      then Some \<lparr>displayName = authorName a, handle = authorHandle a,
                 tweetText = articleText a, link = statusLink a,
                 likes = extractLikes (likeBtn a), verified = iconVerified a,
                 timestamp = extractTimestamp (timeEl a)\<rparr>
      else None)"

definition extractTweetsFromPage :: "page \<Rightarrow> tweet list" where
  "extractTweetsFromPage pg = List.map_filter extractArticle (articles pg)"

text \<open>An article from which \<open>extractArticle\<close> pushes an item.\<close>

definition candidate :: "article \<Rightarrow> bool" where
  "candidate a = (\<not> raises a \<and> articleText a \<noteq> [] \<and> statusLink a \<noteq> [])"

section \<open>The browser as the run sees it\<close>

text \<open>
  An awaited browser call resolves with a value or rejects. The world of one run gives
  the outcome of every awaited call that server.js leaves outside a \<^verbatim>\<open>try\<close> or
  \<^verbatim>\<open>.catch\<close>, and of the scroll-height read (whose rejection line 360 turns into 0):
  the documents the three page scripts see, and per loop iteration the document
  extracted and the scroll height. Calls whose failure is caught and only logged
  (cookies, both \<^verbatim>\<open>goto\<close>, the debug files, \<^verbatim>\<open>waitForSelector\<close>, \<^verbatim>\<open>scrollBy\<close>)
  change nothing the run reads except through these documents. The run is taken from
  the point where \<^verbatim>\<open>launchBrowser\<close> has resolved, the session then exists; the query
  is one \<^verbatim>\<open>encodeURIComponent\<close> accepts; \<^verbatim>\<open>browser.close()\<close> is taken to succeed.
\<close>

datatype 'a outcome = Resolves 'a | Rejects

record world =
  newPage :: "unit outcome"
  setViewport :: "unit outcome"
  setExtraHTTPHeaders :: "unit outcome"
  setUserAgent :: "unit outcome"
  waitForTimeout :: "unit outcome"
  homeDocument :: "page outcome"
  searchDocument :: "page outcome"
  loopDocument :: "nat \<Rightarrow> page outcome"
  loopScrollHeight :: "nat \<Rightarrow> int outcome"
  finalDocument :: "page outcome"

text \<open>The calls a run makes on the browser and the page, in order.\<close>

datatype event =
    NewPage | SetViewport | SetExtraHTTPHeaders | SetUserAgent | SetCookie | GotoHome
  | WaitForTimeout | EvalLoggedIn | SaveDebugFiles | BrowserClose | GotoSearch
  | EvalBlocked | WaitForSelector | ExtractTweets nat | EvalScrollHeight nat | ScrollBy nat

text \<open>
  An exception leaving \<^verbatim>\<open>scrapeTweetsForQuery\<close>: one with code \<^verbatim>\<open>LOGIN_REQUIRED\<close>, or
  any other.
\<close>

datatype error = LoginRequired | OtherError

section \<open>The collection loop\<close>

record loop_state =
  iteration :: nat
  tweets :: "tweet list"
  scrollAttempts :: int
  lastHeight :: int
  calls :: "event list"

datatype loop_exit = LoopDone loop_state | LoopThrew loop_state

text \<open>The state in which line 349 is reached first.\<close>

definition loop_start :: "event list \<Rightarrow> loop_state" where
  "loop_start tr =
     \<lparr>iteration = 0, tweets = [], scrollAttempts = 0, lastHeight = 0, calls = tr\<rparr>"

definition tweetCount :: "loop_state \<Rightarrow> jsnumber" where
  "tweetCount s = Number (int (length (tweets s)))"

text \<open>The guard of the \<^verbatim>\<open>while\<close> of line 349.\<close>

definition loop_guard :: "jsnumber \<Rightarrow> jsnumber \<Rightarrow> loop_state \<Rightarrow> bool" where
  "loop_guard maxTweets MAX_SCROLL_ATTEMPTS s =
     (js_lt (tweetCount s) maxTweets \<and> js_lt (Number (scrollAttempts s)) MAX_SCROLL_ATTEMPTS)"

text \<open>Lines 350-356: the extracted batch is merged into the running list.\<close>

definition merged :: "loop_state \<Rightarrow> page \<Rightarrow> loop_state" where
  "merged s pg =
     s\<lparr>tweets := merge (tweets s) (extractTweetsFromPage pg),
       calls := calls s @ [ExtractTweets (iteration s)]\<rparr>"

text \<open>Line 360: the scroll height read in iteration \<open>i\<close>, 0 when the read fails.\<close>

definition newHeight :: "world \<Rightarrow> nat \<Rightarrow> int" where
  "newHeight w i = (case loopScrollHeight w i of Rejects \<Rightarrow> 0 | Resolves h \<Rightarrow> h)"

text \<open>Lines 360-369: the height is read and compared, then the page is scrolled.\<close>

definition scrolled :: "world \<Rightarrow> loop_state \<Rightarrow> loop_state" where
  "scrolled w s =
     \<lparr>iteration = Suc (iteration s),
      tweets = tweets s,
      scrollAttempts =
        (if newHeight w (iteration s) = lastHeight s then scrollAttempts s + 1 else 0),
      lastHeight =
        (if newHeight w (iteration s) = lastHeight s then lastHeight s
         else newHeight w (iteration s)),
      calls = calls s @ [EvalScrollHeight (iteration s), ScrollBy (iteration s)]\<rparr>"

text \<open>
  Lines 349-370. The loop need not end (a page whose height changes on every pass and
  that never yields enough items), so it is a partial function: \<open>None\<close> is a loop that
  runs forever.
\<close>

partial_function (option) collect_loop ::
  "world \<Rightarrow> jsnumber \<Rightarrow> jsnumber \<Rightarrow> loop_state \<Rightarrow> loop_exit option" where
  "collect_loop w maxTweets MAX_SCROLL_ATTEMPTS s =
     (if loop_guard maxTweets MAX_SCROLL_ATTEMPTS s then
        (case loopDocument w (iteration s) of
           Rejects \<Rightarrow> Some (LoopThrew (s\<lparr>calls := calls s @ [ExtractTweets (iteration s)]\<rparr>))
         | Resolves pg \<Rightarrow>
             if js_ge (tweetCount (merged s pg)) maxTweets then Some (LoopDone (merged s pg))
             else collect_loop w maxTweets MAX_SCROLL_ATTEMPTS (scrolled w (merged s pg)))
      else Some (LoopDone s))"

declare collect_loop.simps [code]

section \<open>Sorting and truncating\<close>

text \<open>
  Lines 386-392 add \<^verbatim>\<open>timestamp_iso\<close> to each item. The ISO string is represented by
  the time value (milliseconds since the epoch) it denotes: \<^verbatim>\<open>toISOString\<close> prints a
  valid time value exactly and \<^verbatim>\<open>new Date\<close> reads it back. \<open>dateParse\<close> is the
  platform's \<^verbatim>\<open>new Date(string).getTime()\<close>, \<open>None\<close> for an invalid date (on which
  \<^verbatim>\<open>toISOString\<close> throws and line 390 stores null).
\<close>

record out_tweet =
  item :: tweet
  timestamp_iso :: "int option"

definition normalize :: "(string \<Rightarrow> int option) \<Rightarrow> tweet \<Rightarrow> out_tweet" where
  "normalize dateParse t =
     \<lparr>item = t,
      timestamp_iso = (case timestamp t of
                         None \<Rightarrow> None
                       | Some s \<Rightarrow> if s = [] then None else dateParse s)\<rparr>"

text \<open>The operand \<^verbatim>\<open>ta\<close> (\<^verbatim>\<open>tb\<close>) of the comparator of lines 393-397.\<close>

definition sortTime :: "out_tweet \<Rightarrow> int" where
  "sortTime a = (case timestamp_iso a of None \<Rightarrow> 0 | Some ms \<Rightarrow> ms)"

text \<open>
  \<^verbatim>\<open>tweets.sort((a, b) => tb - ta)\<close>. \<^verbatim>\<open>Array.prototype.sort\<close> is a stable sort
  (ECMAScript 2019; the Dockerfile runs Node 18), so its result is the stable arrangement
  by decreasing \<open>sortTime\<close>, which \<open>sort_key\<close> on the negated key computes.
\<close>

definition sortNewestFirst :: "out_tweet list \<Rightarrow> out_tweet list" where
  "sortNewestFirst ts = sort_key (\<lambda>a. - sortTime a) ts"

text \<open>\<^verbatim>\<open>xs.slice(0, e)\<close>: NaN counts as 0, a negative end counts from the end of the list.\<close>

definition slice0 :: "'a list \<Rightarrow> jsnumber \<Rightarrow> 'a list" where
  "slice0 xs e =
     (case e of
        NaN \<Rightarrow> []
      | Number n \<Rightarrow> if n < 0 then take (nat (int (length xs) + n)) xs else take (nat n) xs)"

text \<open>Lines 386-399.\<close>

definition sortAndSlice :: "(string \<Rightarrow> int option) \<Rightarrow> jsnumber \<Rightarrow> tweet list \<Rightarrow> out_tweet list" where
  "sortAndSlice dateParse maxTweets ts =
     slice0 (sortNewestFirst (map (normalize dateParse) ts)) maxTweets"

section \<open>scrapeTweetsForQuery\<close>

text \<open>\<^verbatim>\<open>!cookieArray || cookieArray.length === 0\<close>; \<open>None\<close> is null.\<close>

definition noCookies :: "'c list option \<Rightarrow> bool" where
  "noCookies cookieArray = (case cookieArray of None \<Rightarrow> True | Some cs \<Rightarrow> cs = [])"

text \<open>A run: the calls made, and the value returned or the exception thrown.\<close>

type_synonym run = "event list \<times> (error + out_tweet list)"

text \<open>Lines 372-401, from the state the loop ended in.\<close>

definition after_loop ::
  "(string \<Rightarrow> int option) \<Rightarrow> world \<Rightarrow> jsnumber \<Rightarrow> 'c list option \<Rightarrow> loop_state \<Rightarrow> run" where
  "after_loop dateParse w maxTweets cookieArray s =
     (if tweets s = [] then
        (case finalDocument w of
           Rejects \<Rightarrow> (calls s @ [EvalBlocked], Inl OtherError)
         | Resolves pg \<Rightarrow>
             if isBlockedOrLoginPage pg \<and> noCookies cookieArray
             then (calls s @ [EvalBlocked, BrowserClose], Inl LoginRequired)
             else (calls s @ [EvalBlocked, BrowserClose],
                   Inr (sortAndSlice dateParse maxTweets (tweets s))))
      else (calls s @ [BrowserClose], Inr (sortAndSlice dateParse maxTweets (tweets s))))"

text \<open>Lines 337-401: waiting for articles, the loop, and what follows it.\<close>

definition collect_phase ::
  "(string \<Rightarrow> int option) \<Rightarrow> jsnumber \<Rightarrow> world \<Rightarrow> jsnumber \<Rightarrow> 'c list option \<Rightarrow> event list
     \<Rightarrow> run option" where
  "collect_phase dateParse MAX_SCROLL_ATTEMPTS w maxTweets cookieArray tr =
     (case collect_loop w maxTweets MAX_SCROLL_ATTEMPTS (loop_start (tr @ [WaitForSelector])) of
        None \<Rightarrow> None
      | Some (LoopThrew s) \<Rightarrow> Some (calls s, Inl OtherError)
      | Some (LoopDone s) \<Rightarrow> Some (after_loop dateParse w maxTweets cookieArray s))"

text \<open>Lines 316-401: the search navigation, the block check, then the collection.\<close>

definition search_phase ::
  "(string \<Rightarrow> int option) \<Rightarrow> jsnumber \<Rightarrow> world \<Rightarrow> jsnumber \<Rightarrow> 'c list option \<Rightarrow> event list
     \<Rightarrow> run option" where
  "search_phase dateParse MAX_SCROLL_ATTEMPTS w maxTweets cookieArray tr =
     (case searchDocument w of
        Rejects \<Rightarrow> Some (tr @ [GotoSearch, EvalBlocked], Inl OtherError)
      | Resolves pg \<Rightarrow>
          if isBlockedOrLoginPage pg \<and> noCookies cookieArray
          then Some (tr @ [GotoSearch, EvalBlocked, BrowserClose], Inl LoginRequired)
          else collect_phase dateParse MAX_SCROLL_ATTEMPTS w maxTweets cookieArray
                 (tr @ [GotoSearch, EvalBlocked]))"

text \<open>Lines 253-273: cookies are set when the array is non-empty; a failure is only logged.\<close>

definition cookieCalls :: "'c list option \<Rightarrow> event list" where
  "cookieCalls cookieArray = (if noCookies cookieArray then [] else [SetCookie])"

text \<open>The calls of lines 242-295, when none of them throws.\<close>

definition loginCalls :: "'c list option \<Rightarrow> event list" where
  "loginCalls cookieArray =
     [NewPage, SetViewport, SetExtraHTTPHeaders, SetUserAgent] @ cookieCalls cookieArray
       @ [GotoHome, WaitForTimeout, EvalLoggedIn]"

text \<open>
  Lines 240-402. \<open>dateParse\<close> and \<open>MAX_SCROLL_ATTEMPTS\<close> are the platform's date parser
  and the constant of line 21; the query only selects the world. \<open>None\<close> is a run whose
  loop never ends.
\<close>

definition scrapeTweetsForQuery ::
  "(string \<Rightarrow> int option) \<Rightarrow> jsnumber \<Rightarrow> world \<Rightarrow> jsnumber \<Rightarrow> 'c list option \<Rightarrow> run option" where
  "scrapeTweetsForQuery dateParse MAX_SCROLL_ATTEMPTS w maxTweets cookieArray =
     (case newPage w of
        Rejects \<Rightarrow> Some ([NewPage], Inl OtherError)
      | Resolves _ \<Rightarrow>
     (case setViewport w of
        Rejects \<Rightarrow> Some ([NewPage, SetViewport], Inl OtherError)
      | Resolves _ \<Rightarrow>
     (case setExtraHTTPHeaders w of
        Rejects \<Rightarrow> Some ([NewPage, SetViewport, SetExtraHTTPHeaders], Inl OtherError)
      | Resolves _ \<Rightarrow>
     (case setUserAgent w of
        Rejects \<Rightarrow>
          Some ([NewPage, SetViewport, SetExtraHTTPHeaders, SetUserAgent], Inl OtherError)
      | Resolves _ \<Rightarrow>
     (case waitForTimeout w of
        Rejects \<Rightarrow>
          Some ([NewPage, SetViewport, SetExtraHTTPHeaders, SetUserAgent]
                  @ cookieCalls cookieArray @ [GotoHome, WaitForTimeout], Inl OtherError)
      | Resolves _ \<Rightarrow>
     (case homeDocument w of
        Rejects \<Rightarrow> Some (loginCalls cookieArray, Inl OtherError)
      | Resolves home \<Rightarrow>
          if \<not> loggedIn home
          then Some (loginCalls cookieArray @ [SaveDebugFiles, BrowserClose], Inl LoginRequired)
          else search_phase dateParse MAX_SCROLL_ATTEMPTS w maxTweets cookieArray
                 (loginCalls cookieArray)))))))"

text \<open>Every awaited call before the login check of line 286 resolves.\<close>

definition setupResolves :: "world \<Rightarrow> bool" where
  "setupResolves w =
     (newPage w = Resolves () \<and> setViewport w = Resolves () \<and>
      setExtraHTTPHeaders w = Resolves () \<and> setUserAgent w = Resolves () \<and>
      waitForTimeout w = Resolves ())"

text \<open>The run gets as far as the search navigation: the landing page passes the login check.\<close>

definition authenticated :: "world \<Rightarrow> bool" where
  "authenticated w =
     (setupResolves w \<and>
      (case homeDocument w of Rejects \<Rightarrow> False | Resolves home \<Rightarrow> loggedIn home))"

text \<open>
  The order the claim on result ordering speaks of: \<open>a\<close> is not older than \<open>b\<close>, a null
  timestamp being older than every time value.
\<close>

fun nullMinimal_ge :: "int option \<Rightarrow> int option \<Rightarrow> bool" where
  "nullMinimal_ge a None = True"
| "nullMinimal_ge None (Some y) = False"
| "nullMinimal_ge (Some x) (Some y) = (y \<le> x)"

section \<open>The request handler's item count\<close>

text \<open>
  A value of the parsed JSON body, \<open>Undefined\<close> for a field that is absent. \<open>Num\<close> holds
  an integer that \<^verbatim>\<open>String\<close> prints in plain decimal (below \<open>10^21\<close> in absolute value;
  from there on \<^verbatim>\<open>String\<close> prints exponent notation, which \<open>ToString\<close> below does
  not follow); other JSON numbers are floating point and are not modelled.
\<close>

datatype jsval = Undefined | Null | Bool bool | Num int | Str string | Arr "jsval list" | Obj

fun truthy :: "jsval \<Rightarrow> bool" where
  "truthy Undefined = False"
| "truthy Null = False"
| "truthy (Bool b) = b"
| "truthy (Num n) = (n \<noteq> 0)"
| "truthy (Str s) = (s \<noteq> [])"
| "truthy (Arr xs) = True"
| "truthy Obj = True"

definition js_or :: "jsval \<Rightarrow> jsval \<Rightarrow> jsval" where
  "js_or a b = (if truthy a then a else b)"

fun showNat :: "nat \<Rightarrow> string" where
  "showNat n = (if n < 10 then [''0123456789'' ! n]
                else showNat (n div 10) @ [''0123456789'' ! (n mod 10)])"

definition showInt :: "int \<Rightarrow> string" where
  "showInt i = (if i < 0 then CHR ''-'' # showNat (nat (- i)) else showNat (nat i))"

fun joinComma :: "string list \<Rightarrow> string" where
  "joinComma [] = []"
| "joinComma [s] = s"
| "joinComma (s # t # ss) = s @ CHR '','' # joinComma (t # ss)"

text \<open>\<^verbatim>\<open>String(v)\<close>, which \<^verbatim>\<open>parseInt\<close> applies to its argument first.\<close>

fun ToString :: "jsval \<Rightarrow> string" where
  "ToString Undefined = ''undefined''"
| "ToString Null = ''null''"
| "ToString (Bool b) = (if b then ''true'' else ''false'')"
| "ToString (Num n) = showInt n"
| "ToString (Str s) = s"
| "ToString (Arr xs) =
     joinComma (map (\<lambda>x. if x = Undefined \<or> x = Null then [] else ToString x) xs)"
| "ToString Obj = ''[object Object]''"

definition parseInt :: "jsval \<Rightarrow> jsnumber" where
  "parseInt v = parseInt10 (ToString v)"

text \<open>The two fields of \<^verbatim>\<open>req.body\<close> that line 413 reads.\<close>

record body =
  max_tweets_per_run :: jsval
  max_tweets :: jsval

text \<open>
  server.js 413:
  \<^verbatim>\<open>Math.max(1, parseInt(body.max_tweets_per_run || body.max_tweets || 1, 10))\<close>
\<close>

definition maxTweets_of :: "body \<Rightarrow> jsnumber" where
  "maxTweets_of b =
     Math_max (Number 1)
       (parseInt (js_or (js_or (max_tweets_per_run b) (max_tweets b)) (Num 1)))"

section \<open>The loop in the words of its description\<close>

text \<open>
  The height recorded before iteration \<open>j\<close> (0 before the first, the previous reading
  after that); the number of consecutive iterations just before iteration \<open>i\<close> whose
  reading equalled the recorded height (the stagnation counter as described: one more
  for each reading that did not change, zero again after one that did); the batch
  extracted in iteration \<open>j\<close>; and the batches of the iterations before \<open>i\<close> merged in
  order. \<open>loop_inv\<close> ties the loop's variables to them; it is proved to hold
  throughout a run of the loop.
\<close>

fun prevHeight :: "world \<Rightarrow> nat \<Rightarrow> int" where
  "prevHeight w 0 = 0"
| "prevHeight w (Suc j) = newHeight w j"

fun stagnantRun :: "world \<Rightarrow> nat \<Rightarrow> int" where
  "stagnantRun w 0 = 0"
| "stagnantRun w (Suc j) = (if newHeight w j = prevHeight w j then stagnantRun w j + 1 else 0)"

definition batch :: "world \<Rightarrow> nat \<Rightarrow> tweet list" where
  "batch w j = (case loopDocument w j of Rejects \<Rightarrow> [] | Resolves pg \<Rightarrow> extractTweetsFromPage pg)"

fun collected :: "world \<Rightarrow> nat \<Rightarrow> tweet list" where
  "collected w 0 = []"
| "collected w (Suc j) = merge (collected w j) (batch w j)"

text \<open>All batches extracted before iteration \<open>i\<close>, one after the other.\<close>

definition batches :: "world \<Rightarrow> nat \<Rightarrow> tweet list" where
  "batches w i = concat (map (batch w) [0..<i])"

definition loop_inv :: "world \<Rightarrow> loop_state \<Rightarrow> bool" where
  "loop_inv w s =
     (scrollAttempts s = stagnantRun w (iteration s) \<and>
      lastHeight s = prevHeight w (iteration s) \<and>
      tweets s = collected w (iteration s))"

text \<open>
  What holds of the way the loop ended: an exception comes from a failed extraction; a
  normal end is at the loop head with the guard false, or at line 358 with enough items.
\<close>

definition loop_post :: "world \<Rightarrow> jsnumber \<Rightarrow> jsnumber \<Rightarrow> loop_exit \<Rightarrow> bool" where
  "loop_post w maxTweets budget y =
     (case y of
        LoopThrew s' \<Rightarrow> loopDocument w (iteration s') = Rejects
      | LoopDone s' \<Rightarrow>
          scrollAttempts s' = stagnantRun w (iteration s') \<and>
          ((\<not> loop_guard maxTweets budget s' \<and> tweets s' = collected w (iteration s')) \<or>
           (js_ge (tweetCount s') maxTweets \<and> tweets s' = collected w (Suc (iteration s')))))"

section \<open>Example inputs\<close>

text \<open>
  An article with a profile link and one further anchor \<open>href\<close>, the given tweet text and
  \<^verbatim>\<open>datetime\<close>; a page of such articles that passes the login check and shows no
  block; a world in which every call resolves, every document is that page, and the
  scroll height is always 1000.
\<close>

definition exArticle :: "string \<Rightarrow> string \<Rightarrow> string option \<Rightarrow> article" where
  "exArticle href txt dt =
     \<lparr>raises = False, tweetTextEl = Some txt, anchorHrefs = [''/alice'', href],
      authorName = ''Alice'', authorHandle = ''alice'',
      likeBtn = Some \<lparr>ariaLabel = Some ''1,234 Likes. Like'', likeInnerText = []\<rparr>,
      iconVerified = False,
      timeEl = Some \<lparr>datetime = dt, timeInnerText = []\<rparr>\<rparr>"

definition exPage :: "article list \<Rightarrow> page" where
  "exPage as =
     \<lparr>bodyInnerText = Some ''Home'', loginElement = False, homeLink = True,
      profileLink = False, timelineDiv = False, articles = as\<rparr>"

definition exWorld :: "page \<Rightarrow> world" where
  "exWorld pg =
     \<lparr>newPage = Resolves (), setViewport = Resolves (), setExtraHTTPHeaders = Resolves (),
      setUserAgent = Resolves (), waitForTimeout = Resolves (), homeDocument = Resolves pg,
      searchDocument = Resolves pg, loopDocument = (\<lambda>i. Resolves pg),
      loopScrollHeight = (\<lambda>i. Resolves 1000), finalDocument = Resolves pg\<rparr>"

definition exTweet :: "string \<Rightarrow> string \<Rightarrow> tweet" where
  "exTweet l txt =
     \<lparr>displayName = [], handle = [], tweetText = txt, link = l, likes = Number 0,
      verified = False, timestamp = None\<rparr>"

text \<open>A snapshot in which the same post is rendered twice.\<close>

definition exTwicePage :: page where
  "exTwicePage =
     exPage [exArticle ''/a/status/1'' ''one'' None, exArticle ''/a/status/1'' ''two'' None]"

text \<open>
  A snapshot with one complete article, one whose text is blank and one without a status
  link; a like control whose label has a comma before its first digit.
\<close>

definition exMixedPage :: page where
  "exMixedPage =
     exPage [exArticle ''/a/status/1'' '' one '' None, exArticle ''/b/status/2'' ''   '' None,
             exArticle ''/c/photo/3'' ''three'' None]"

definition exCommaLike :: likeControl where
  "exCommaLike = \<lparr>ariaLabel = Some ''Like, 12'', likeInnerText = []\<rparr>"

definition exCommaPage :: page where
  "exCommaPage = exPage [(exArticle ''/a/status/1'' ''one'' None)\<lparr>likeBtn := Some exCommaLike\<rparr>]"

text \<open>
  The platform's date parser on the two strings the examples use: one second before the
  epoch, and the first instant of 2024.
\<close>

definition exDateParse :: "string \<Rightarrow> int option" where
  "exDateParse s =
     (if s = ''1969-12-31T23:59:59.000Z'' then Some (- 1000)
      else if s = ''2024-01-01T00:00:00.000Z'' then Some 1704067200000
      else None)"

definition exDatedTweet :: "string \<Rightarrow> string option \<Rightarrow> tweet" where
  "exDatedTweet l ts = (exTweet l ''text'')\<lparr>timestamp := ts\<rparr>"

text \<open>
  Pages: one that fails the login check, and one whose text is a rate-limit notice.
  Worlds: one whose landing page fails the login check, one whose search page shows the
  rate-limit notice, one in which the first extraction throws, and one in which nothing
  is ever found and the final page shows the rate-limit notice.
\<close>

definition exLoggedOutPage :: page where
  "exLoggedOutPage = (exPage [])\<lparr>bodyInnerText := Some ''Log in to X'', homeLink := False\<rparr>"

definition exRateLimitPage :: page where
  "exRateLimitPage = (exPage [])\<lparr>bodyInnerText := Some ''Rate limit exceeded''\<rparr>"

definition exLoggedOutWorld :: world where
  "exLoggedOutWorld = (exWorld exTwicePage)\<lparr>homeDocument := Resolves exLoggedOutPage\<rparr>"

definition exBlockedWorld :: world where
  "exBlockedWorld = (exWorld exTwicePage)\<lparr>searchDocument := Resolves exRateLimitPage\<rparr>"

definition exThrowingWorld :: world where
  "exThrowingWorld = (exWorld exTwicePage)\<lparr>loopDocument := (\<lambda>i. Rejects)\<rparr>"

definition exEmptyWorld :: world where
  "exEmptyWorld = (exWorld (exPage []))\<lparr>finalDocument := Resolves exRateLimitPage\<rparr>"

text \<open>
  The scenario of three posts and no scroll growth: the page, and the state in which the
  loop ends with item count 10 and scroll-attempt budget 12.
\<close>

definition exThreePage :: page where
  "exThreePage =
     exPage [exArticle ''/a/status/1'' ''one'' None, exArticle ''/b/status/2'' ''two'' None,
             exArticle ''/c/status/3'' ''three'' None]"

definition exThreeEnd :: loop_state where
  "exThreeEnd =
     \<lparr>iteration = 13, tweets = extractTweetsFromPage exThreePage,
      scrollAttempts = 12, lastHeight = 1000,
      calls = concat (map (\<lambda>i. [ExtractTweets i, EvalScrollHeight i, ScrollBy i]) [0..<13])\<rparr>"

text \<open>The state in which the loop ends on a page without articles, with budget 2.\<close>

definition exEmptyEnd :: "event list \<Rightarrow> loop_state" where
  "exEmptyEnd tr =
     \<lparr>iteration = 3, tweets = [], scrollAttempts = 2, lastHeight = 1000,
      calls = tr @ concat (map (\<lambda>i. [ExtractTweets i, EvalScrollHeight i, ScrollBy i]) [0..<3])\<rparr>"

section \<open>Facts about the merge step\<close>

lemma map_has_iff: "map_has k m \<longleftrightarrow> k \<in> set (map fst m)"
  by (induction m) auto

lemma map_set_new: "k \<notin> set (map fst m) \<Longrightarrow> map_set k v m = m @ [(k, v)]"
  by (induction m) auto

lemma map_set_keys:
  "map fst (map_set k v m) = (if k \<in> set (map fst m) then map fst m else map fst m @ [k])"
  by (induction m) force+

lemma map_set_values: "e \<in> set (map_set k v m) \<Longrightarrow> e = (k, v) \<or> e \<in> set m"
  by (induction m) (auto split: if_splits)

lemma keyed_map_set: "keyed m \<Longrightarrow> keyed (map_set (link t) t m)"
proof -
  assume k: "keyed m"
  have d: "distinct (map fst (map_set (link t) t m))"
    using k by (simp add: map_set_keys keyed_def)
  have "fst e = link (snd e)" if "e \<in> set (map_set (link t) t m)" for e
    using map_set_values [OF that] k by (auto simp: keyed_def list_all_iff)
  then show ?thesis
    using d by (auto simp: keyed_def list_all_iff)
qed

lemma keyed_foldl_set:
  "keyed m \<Longrightarrow> keyed (foldl (\<lambda>m (k, v). map_set k v m) m (map (\<lambda>t. (link t, t)) ts))"
  by (induction ts arbitrary: m) (simp_all add: keyed_map_set)

lemma keyed_map_new: "keyed (map_new (map (\<lambda>t. (link t, t)) ts))"
  unfolding map_new_def by (rule keyed_foldl_set) (simp add: keyed_def)

lemma keyed_merge_step: "keyed m \<Longrightarrow> keyed (merge_step m t)"
  by (simp add: merge_step_def keyed_map_set)

lemma keyed_foldl_merge_step: "keyed m \<Longrightarrow> keyed (foldl merge_step m ns)"
  by (induction ns arbitrary: m) (simp_all add: keyed_merge_step)

lemma keyed_links: "keyed m \<Longrightarrow> map link (map_values m) = map fst m"
  by (induction m) (auto simp: keyed_def map_values_def)

lemma merge_distinct: "distinct (map link (merge ts ns))"
proof -
  have "keyed (foldl merge_step (map_new (map (\<lambda>t. (link t, t)) ts)) ns)"
    by (intro keyed_foldl_merge_step keyed_map_new)
  then show ?thesis
    unfolding merge_def by (simp add: keyed_links keyed_def)
qed

lemma foldl_map_set_distinct:
  "distinct (map fst (m @ es)) \<Longrightarrow> foldl (\<lambda>m (k, v). map_set k v m) m es = m @ es"
proof (induction es arbitrary: m)
  case Nil
  then show ?case by simp
next
  case (Cons e es)
  obtain k v where e: "e = (k, v)" by (cases e)
  from Cons.prems have "k \<notin> set (map fst m)" by (auto simp: e)
  then have s: "map_set k v m = m @ [(k, v)]" by (rule map_set_new)
  have "foldl (\<lambda>m (k, v). map_set k v m) (m @ [(k, v)]) es = (m @ [(k, v)]) @ es"
    using Cons.prems by (intro Cons.IH) (simp add: e)
  then show ?case by (simp add: e s)
qed

lemma map_new_distinct:
  "distinct (map link ts) \<Longrightarrow> map_values (map_new (map (\<lambda>t. (link t, t)) ts)) = ts"
  using foldl_map_set_distinct [of "[]" "map (\<lambda>t. (link t, t)) ts"]
  by (simp add: map_new_def map_values_def comp_def)

lemma foldl_merge_step:
  "keyed m \<Longrightarrow> map_values (foldl merge_step m ns) = merge_list (map_values m) ns"
proof (induction ns arbitrary: m)
  case Nil
  then show ?case by simp
next
  case (Cons n ns)
  have links: "set (map link (map_values m)) = set (map fst m)"
    using Cons.prems by (simp add: keyed_links)
  show ?case
  proof (cases "link n \<noteq> [] \<and> link n \<notin> set (map fst m)")
    case True
    then have s: "merge_step m n = m @ [(link n, n)]"
      by (simp add: merge_step_def map_has_iff map_set_new)
    have "keyed (merge_step m n)" using Cons.prems by (rule keyed_merge_step)
    then have "map_values (foldl merge_step (merge_step m n) ns)
               = merge_list (map_values (merge_step m n)) ns"
      by (rule Cons.IH)
    then show ?thesis using True links by (simp add: s map_values_def)
  next
    case False
    then have s: "merge_step m n = m"
      by (auto simp: merge_step_def map_has_iff)
    show ?thesis using False links Cons.IH [OF Cons.prems] by (auto simp: s)
  qed
qed

lemma merge_eq_merge_list:
  "merge ts ns = merge_list (map_values (map_new (map (\<lambda>t. (link t, t)) ts))) ns"
  unfolding merge_def by (rule foldl_merge_step) (rule keyed_map_new)

lemma merge_distinct_eq: "distinct (map link ts) \<Longrightarrow> merge ts ns = merge_list ts ns"
  by (simp add: merge_eq_merge_list map_new_distinct)

lemma find_app:
  "find P (xs @ ys) = (case find P xs of None \<Rightarrow> find P ys | Some x \<Rightarrow> Some x)"
  by (induction xs) auto

lemma merge_list_find:
  "k \<noteq> [] \<Longrightarrow> find (\<lambda>t. link t = k) (merge_list ts ns) = find (\<lambda>t. link t = k) (ts @ ns)"
proof (induction ns arbitrary: ts)
  case Nil
  then show ?case by simp
next
  case (Cons n ns)
  show ?case
  proof (cases "link n \<noteq> [] \<and> link n \<notin> set (map link ts)")
    case True
    then show ?thesis using Cons.IH [OF Cons.prems, of "ts @ [n]"] by simp
  next
    case False
    have "find (\<lambda>t. link t = k) (ts @ n # ns) = find (\<lambda>t. link t = k) (ts @ ns)"
    proof (cases "link n = k")
      case True
      then have "k \<in> set (map link ts)" using False Cons.prems by auto
      then obtain t where "find (\<lambda>t. link t = k) ts = Some t"
        by (cases "find (\<lambda>t. link t = k) ts") (auto simp: find_None_iff)
      then show ?thesis by (simp add: find_app)
    next
      case False
      then show ?thesis by (simp add: find_app split: option.splits)
    qed
    then show ?thesis using False Cons.IH [OF Cons.prems, of ts] by auto
  qed
qed

lemma merge_list_prefix: "take (length ts) (merge_list ts ns) = ts"
proof (induction ns arbitrary: ts)
  case Nil
  then show ?case by simp
next
  case (Cons n ns)
  show ?case
  proof (cases "link n \<noteq> [] \<and> link n \<notin> set (map link ts)")
    case True
    have "take (length ts) (take (length (ts @ [n])) (merge_list (ts @ [n]) ns)) = take (length ts) (ts @ [n])"
      by (simp only: Cons.IH)
    then show ?thesis using True by (simp add: min_def)
  next
    case False
    then show ?thesis using Cons.IH [of ts] by auto
  qed
qed

lemma merge_list_fixed:
  "\<forall>n \<in> set ns. link n \<noteq> [] \<longrightarrow> link n \<in> set (map link ts) \<Longrightarrow> merge_list ts ns = ts"
  by (induction ns arbitrary: ts) auto

lemma merge_list_links:
  "link ` set (merge_list ts ns) = link ` set ts \<union> {link n | n. n \<in> set ns \<and> link n \<noteq> []}"
  by (induction ns arbitrary: ts) auto

lemma merge_list_append: "merge_list ts (xs @ ys) = merge_list (merge_list ts xs) ys"
  by (induction xs arbitrary: ts) simp_all

lemma merge_idem: "merge (merge ts ns) ns = merge ts ns"
proof -
  have "merge (merge ts ns) ns = merge_list (merge ts ns) ns"
    by (rule merge_distinct_eq) (rule merge_distinct)
  also have "\<dots> = merge ts ns"
    by (rule merge_list_fixed) (auto simp: merge_eq_merge_list merge_list_links)
  finally show ?thesis .
qed

section \<open>Facts about the extractor\<close>

lemma extractArticle_Some:
  "extractArticle a = Some t \<Longrightarrow>
     candidate a \<and> tweetText t = articleText a \<and> link t = statusLink a"
  by (auto simp: extractArticle_def candidate_def split: if_splits)

lemma extractArticle_None: "extractArticle a = None \<longleftrightarrow> \<not> candidate a"
  by (auto simp: extractArticle_def candidate_def)

lemma map_filter_links:
  "map link (List.map_filter extractArticle as) = map statusLink (filter candidate as)"
proof (induction as)
  case Nil
  then show ?case by (simp add: List.map_filter_simps)
next
  case (Cons a as)
  show ?case
  proof (cases "extractArticle a")
    case None
    moreover from None have "\<not> candidate a" by (simp add: extractArticle_None)
    ultimately show ?thesis using Cons by (simp add: List.map_filter_simps)
  next
    case (Some t)
    then show ?thesis
      using Cons extractArticle_Some [OF Some] by (simp add: List.map_filter_simps)
  qed
qed

lemma digitVal_digit: "isDigit c \<Longrightarrow> 0 \<le> digitVal c"
  by (auto simp: isDigit_def digitVal_def)

lemma foldl_digits_nonneg:
  "0 \<le> a \<Longrightarrow> list_all isDigit ds \<Longrightarrow> 0 \<le> foldl (\<lambda>a c. 10 * a + digitVal c) a ds"
proof (induction ds arbitrary: a)
  case Nil
  then show ?case by simp
next
  case (Cons d ds)
  then have "0 \<le> 10 * a + digitVal d" using digitVal_digit [of d] by simp
  then show ?case using Cons by simp
qed

lemma parseDigits_range: "parseDigits s = NaN \<or> (\<exists>n\<ge>0. parseDigits s = Number n)"
proof -
  have "list_all isDigit (takeWhile isDigit s)"
    by (simp add: list_all_iff) (meson set_takeWhileD)
  then have "0 \<le> digitsVal (takeWhile isDigit s)"
    unfolding digitsVal_def by (intro foldl_digits_nonneg) simp_all
  then show ?thesis by (simp add: parseDigits_def Let_def)
qed

lemma parseInt10_digits:
  assumes "list_all isDigit ds"
  shows "parseInt10 ds = NaN \<or> (\<exists>n\<ge>0. parseInt10 ds = Number n)"
proof (cases ds)
  case Nil
  then show ?thesis by (simp add: parseInt10_def trimStart_def)
next
  case (Cons d ds')
  then have d: "isDigit d" using assms by simp
  then have "\<not> isSpace d" "d \<noteq> CHR ''-''" "d \<noteq> CHR ''+''"
    by (auto simp: isDigit_def isSpace_def)
  then have "parseInt10 ds = parseDigits ds"
    by (simp add: parseInt10_def trimStart_def Cons)
  then show ?thesis using parseDigits_range [of ds] by simp
qed

lemma extractLikes_range:
  "extractLikes btn = NaN \<or> (\<exists>n\<ge>0. extractLikes btn = Number n)"
proof (cases btn)
  case None
  then show ?thesis by (simp add: extractLikes_def)
next
  case (Some b)
  define aria where "aria = (case str_or (str_or (ariaLabel b) (Some (likeInnerText b))) (Some []) of
                         None \<Rightarrow> [] | Some s \<Rightarrow> s)"
  show ?thesis
  proof (cases "matchDigitsCommas aria")
    case None
    then show ?thesis using Some by (simp add: extractLikes_def aria_def)
  next
    case (Some m0)
    then have "list_all isDigitOrComma m0"
      by (auto simp: matchDigitsCommas_def Let_def list_all_iff split: if_splits dest: set_takeWhileD)
    then have "list_all isDigit (filter (\<lambda>c. c \<noteq> CHR '','') m0)"
      by (auto simp: list_all_iff isDigitOrComma_def)
    from parseInt10_digits [OF this] show ?thesis
      using Some \<open>btn = Some b\<close> by (simp add: extractLikes_def aria_def)
  qed
qed

section \<open>Facts about the collection loop\<close>

lemmas collect_loop_induct = collect_loop.raw_induct [rotated 1, consumes 1, case_names step]

lemma collect_loop_links:
  assumes "collect_loop w maxTweets budget s = Some y"
    and "distinct (map link (tweets s))"
  shows "case y of LoopDone s' \<Rightarrow> distinct (map link (tweets s')) | LoopThrew s' \<Rightarrow> True"
  using assms
proof (induction rule: collect_loop_induct)
  case (step collect_loop w maxTweets budget s y)
  note IH = step(1) and eq = step(2) and d0 = step(3)
  show ?case
  proof (cases "loop_guard maxTweets budget s")
    case False
    then show ?thesis using eq d0 by auto
  next
    case True
    show ?thesis
    proof (cases "loopDocument w (iteration s)")
      case Rejects
      then show ?thesis using True eq by auto
    next
      case (Resolves pg)
      have d: "distinct (map link (tweets (merged s pg)))"
        by (simp add: merged_def merge_distinct)
      show ?thesis
      proof (cases "js_ge (tweetCount (merged s pg)) maxTweets")
        case True
        then show ?thesis using \<open>loop_guard maxTweets budget s\<close> Resolves eq d by auto
      next
        case False
        have "distinct (map link (tweets (scrolled w (merged s pg))))"
          using d by (simp add: scrolled_def)
        moreover have "collect_loop w maxTweets budget (scrolled w (merged s pg)) = Some y"
          using False \<open>loop_guard maxTweets budget s\<close> Resolves eq by simp
        ultimately show ?thesis by (rule IH [rotated])
      qed
    qed
  qed
qed

lemma loop_inv_start: "loop_inv w (loop_start tr)"
  by (simp add: loop_inv_def loop_start_def)

lemma loop_inv_step:
  "loop_inv w s \<Longrightarrow> loopDocument w (iteration s) = Resolves pg \<Longrightarrow>
     loop_inv w (scrolled w (merged s pg))"
  by (simp add: loop_inv_def scrolled_def merged_def batch_def)

lemma merged_tweets:
  "loop_inv w s \<Longrightarrow> loopDocument w (iteration s) = Resolves pg \<Longrightarrow>
     tweets (merged s pg) = collected w (Suc (iteration s)) \<and>
     iteration (merged s pg) = iteration s \<and>
     scrollAttempts (merged s pg) = scrollAttempts s \<and> lastHeight (merged s pg) = lastHeight s"
  by (simp add: loop_inv_def merged_def batch_def)

lemma collect_loop_post:
  assumes "collect_loop w maxTweets budget s = Some y" and "loop_inv w s"
  shows "loop_post w maxTweets budget y"
  using assms
proof (induction rule: collect_loop_induct)
  case (step collect_loop w maxTweets budget s y)
  note IH = step(1) and eq = step(2) and inv = step(3)
  show ?case
  proof (cases "loop_guard maxTweets budget s")
    case False
    then show ?thesis using eq inv by (auto simp: loop_post_def loop_inv_def)
  next
    case True
    show ?thesis
    proof (cases "loopDocument w (iteration s)")
      case Rejects
      then show ?thesis using True eq by (auto simp: loop_post_def)
    next
      case (Resolves pg)
      note m = merged_tweets [OF inv Resolves]
      show ?thesis
      proof (cases "js_ge (tweetCount (merged s pg)) maxTweets")
        case True
        then show ?thesis
          using \<open>loop_guard maxTweets budget s\<close> Resolves eq m inv
          by (auto simp: loop_post_def loop_inv_def)
      next
        case False
        have "collect_loop w maxTweets budget (scrolled w (merged s pg)) = Some y"
          using False True Resolves eq by simp
        then show ?thesis
          by (rule IH) (rule loop_inv_step [OF inv Resolves])
      qed
    qed
  qed
qed

lemma loop_terminates_stagnant:
  assumes "\<forall>j. loopDocument w j \<noteq> Rejects"
    and "\<forall>j\<ge>i0. newHeight w j = prevHeight w j"
    and "lastHeight s = prevHeight w (iteration s)"
    and "i0 \<le> iteration s"
  shows "\<exists>s'. collect_loop w (Number m) (Number b) s = Some (LoopDone s')"
  using assms(3,4)
proof (induction "nat (b - scrollAttempts s)" arbitrary: s rule: less_induct)
  case less
  show ?case
  proof (cases "loop_guard (Number m) (Number b) s")
    case False
    then show ?thesis by (subst collect_loop.simps) simp
  next
    case True
    obtain pg where pg: "loopDocument w (iteration s) = Resolves pg"
      using assms(1) by (cases "loopDocument w (iteration s)") auto
    show ?thesis
    proof (cases "js_ge (tweetCount (merged s pg)) (Number m)")
      case True
      then show ?thesis
        using \<open>loop_guard (Number m) (Number b) s\<close> pg by (subst collect_loop.simps) simp
    next
      case False
      let ?s = "scrolled w (merged s pg)"
      have same: "newHeight w (iteration s) = lastHeight s"
        using assms(2) less.prems by simp
      have lt: "scrollAttempts s < b"
        using True by (simp add: loop_guard_def)
      have "nat (b - scrollAttempts ?s) < nat (b - scrollAttempts s)"
        using same lt by (simp add: scrolled_def merged_def)
      moreover have "lastHeight ?s = prevHeight w (iteration ?s)"
        using same by (simp add: scrolled_def merged_def)
      moreover have "i0 \<le> iteration ?s"
        using less.prems by (simp add: scrolled_def merged_def)
      ultimately have "\<exists>s'. collect_loop w (Number m) (Number b) ?s = Some (LoopDone s')"
        by (rule less.hyps)
      then show ?thesis
        using False True pg by (subst collect_loop.simps) simp
    qed
  qed
qed

lemma loop_terminates_eventually_stagnant:
  assumes "\<forall>j. loopDocument w j \<noteq> Rejects"
    and "\<forall>j\<ge>i0. newHeight w j = prevHeight w j"
    and "lastHeight s = prevHeight w (iteration s)"
  shows "\<exists>s'. collect_loop w (Number m) (Number b) s = Some (LoopDone s')"
  using assms(3)
proof (induction "i0 - iteration s" arbitrary: s rule: less_induct)
  case less
  show ?case
  proof (cases "i0 \<le> iteration s")
    case True
    then show ?thesis using loop_terminates_stagnant [OF assms(1,2) less.prems] by simp
  next
    case far: False
    show ?thesis
    proof (cases "loop_guard (Number m) (Number b) s")
      case False
      then show ?thesis by (subst collect_loop.simps) simp
    next
      case True
      obtain pg where pg: "loopDocument w (iteration s) = Resolves pg"
        using assms(1) by (cases "loopDocument w (iteration s)") auto
      show ?thesis
      proof (cases "js_ge (tweetCount (merged s pg)) (Number m)")
        case True
        then show ?thesis
          using \<open>loop_guard (Number m) (Number b) s\<close> pg by (subst collect_loop.simps) simp
      next
        case False
        let ?s = "scrolled w (merged s pg)"
        have "i0 - iteration ?s < i0 - iteration s"
          using far by (simp add: scrolled_def merged_def)
        moreover have "lastHeight ?s = prevHeight w (iteration ?s)"
          by (simp add: scrolled_def merged_def)
        ultimately have "\<exists>s'. collect_loop w (Number m) (Number b) ?s = Some (LoopDone s')"
          by (rule less.hyps)
        then show ?thesis
          using False True pg by (subst collect_loop.simps) simp
      qed
    qed
  qed
qed

lemma collected_distinct: "distinct (map link (collected w i))"
  by (cases i) (simp_all add: merge_distinct)

lemma collected_batches: "collected w i = merge_list [] (batches w i)"
proof (induction i)
  case 0
  then show ?case by (simp add: batches_def)
next
  case (Suc i)
  have "collected w (Suc i) = merge_list (collected w i) (batch w i)"
    by (simp add: merge_distinct_eq collected_distinct)
  also have "\<dots> = merge_list [] (batches w i @ batch w i)"
    by (simp add: Suc merge_list_append)
  finally show ?case by (simp add: batches_def)
qed

lemma collected_find:
  "k \<noteq> [] \<Longrightarrow>
     find (\<lambda>t. link t = k) (collected w i) = find (\<lambda>t. link t = k) (batches w i)"
  using merge_list_find [of k "[]" "batches w i"] by (simp add: collected_batches)

lemma loop_skipped: "\<not> loop_guard maxTweets budget s \<Longrightarrow>
   collect_loop w maxTweets budget s = Some (LoopDone s)"
  by (subst collect_loop.simps) simp

lemma loop_guard_NaN: "maxTweets = NaN \<or> budget = NaN \<Longrightarrow> \<not> loop_guard maxTweets budget s"
  by (auto simp: loop_guard_def)

lemma loop_terminates_any:
  assumes "\<forall>j. loopDocument w j \<noteq> Rejects"
    and "\<forall>j\<ge>i0. newHeight w j = prevHeight w j"
    and "lastHeight s = prevHeight w (iteration s)"
  shows "\<exists>s'. collect_loop w maxTweets budget s = Some (LoopDone s')"
proof (cases "maxTweets = NaN \<or> budget = NaN")
  case True
  then show ?thesis using loop_skipped [OF loop_guard_NaN] by blast
next
  case False
  then obtain m b where "maxTweets = Number m" "budget = Number b"
    by (cases maxTweets; cases budget) auto
  then show ?thesis using loop_terminates_eventually_stagnant [OF assms] by simp
qed

section \<open>Facts about sorting and the run\<close>

lemma loggedIn_iff: "loggedIn pg = (homeLink pg \<or> profileLink pg \<or> timelineDiv pg)"
  by (simp add: loggedIn_def Let_def)

lemma sortNewestFirst_sorted:
  "sorted_wrt (\<lambda>a b. sortTime b \<le> sortTime a) (sortNewestFirst xs)"
proof -
  have "sorted (map (\<lambda>a. - sortTime a) (sortNewestFirst xs))"
    unfolding sortNewestFirst_def by (rule sorted_sort_key)
  then show ?thesis by (simp add: sorted_map)
qed

lemma sortNewestFirst_stable:
  "filter (\<lambda>a. sortTime a = k) (sortNewestFirst xs) = filter (\<lambda>a. sortTime a = k) xs"
  using sort_key_stable [of "\<lambda>a. - sortTime a" "- k" xs]
  by (simp add: sortNewestFirst_def)

lemma sortAndSlice_Nil: "sortAndSlice dateParse maxTweets [] = []"
  by (simp add: sortAndSlice_def slice0_def sortNewestFirst_def split: jsnumber.splits)

lemma scrape_authenticated:
  "authenticated w \<Longrightarrow>
     scrapeTweetsForQuery dateParse budget w maxTweets cookieArray
       = search_phase dateParse budget w maxTweets cookieArray (loginCalls cookieArray)"
  by (auto simp: authenticated_def setupResolves_def scrapeTweetsForQuery_def
           split: outcome.splits)

lemma collect_phase_not_login_required:
  "\<not> noCookies cookieArray \<Longrightarrow>
     collect_phase dateParse budget w maxTweets cookieArray tr \<noteq> Some (tr', Inl LoginRequired)"
  by (auto simp: collect_phase_def after_loop_def
           split: option.splits loop_exit.splits outcome.splits if_splits)

lemma after_loop_closes:
  "after_loop dateParse w maxTweets cookieArray s = (tr, r) \<Longrightarrow> r \<noteq> Inl OtherError \<Longrightarrow>
     tr \<noteq> [] \<and> last tr = BrowserClose"
  by (auto simp: after_loop_def split: if_splits outcome.splits)

lemma session_closed_unless_other_error:
  assumes "scrapeTweetsForQuery dateParse budget w maxTweets cookieArray = Some (tr, r)"
    and "r \<noteq> Inl OtherError"
  shows "tr \<noteq> [] \<and> last tr = BrowserClose"
  using assms
  by (auto simp: scrapeTweetsForQuery_def search_phase_def collect_phase_def
           split: outcome.splits if_splits option.splits loop_exit.splits
           dest: after_loop_closes)

lemma slice0_distinct: "distinct (map f xs) \<Longrightarrow> distinct (map f (slice0 xs e))"
  by (auto simp: slice0_def take_map [symmetric] split: jsnumber.splits)

lemma sortAndSlice_links:
  assumes "distinct (map link ts)"
  shows "distinct (map (\<lambda>a. link (item a)) (sortAndSlice dateParse maxTweets ts))"
proof -
  let ?xs = "map (normalize dateParse) ts"
  have "map (\<lambda>a. link (item a)) ?xs = map link ts"
    by (simp add: normalize_def comp_def)
  moreover have "mset (sortNewestFirst ?xs) = mset ?xs"
    by (simp add: sortNewestFirst_def)
  then have "mset (map (\<lambda>a. link (item a)) (sortNewestFirst ?xs))
                   = mset (map (\<lambda>a. link (item a)) ?xs)"
    by (simp only: mset_map)
  ultimately have "distinct (map (\<lambda>a. link (item a)) (sortNewestFirst ?xs))"
    using assms by (metis mset_eq_imp_distinct_iff)
  then show ?thesis unfolding sortAndSlice_def by (rule slice0_distinct)
qed

lemma after_loop_links:
  "after_loop dateParse w maxTweets cookieArray s = (tr, Inr res) \<Longrightarrow>
     distinct (map link (tweets s)) \<Longrightarrow> distinct (map (\<lambda>a. link (item a)) res)"
  by (auto simp: after_loop_def sortAndSlice_links split: if_splits outcome.splits)

lemma collect_phase_links:
  assumes "collect_phase dateParse budget w maxTweets cookieArray tr0 = Some (tr, Inr res)"
  shows "distinct (map (\<lambda>a. link (item a)) res)"
proof -
  from assms obtain s where
    l: "collect_loop w maxTweets budget (loop_start (tr0 @ [WaitForSelector])) = Some (LoopDone s)"
    and a: "after_loop dateParse w maxTweets cookieArray s = (tr, Inr res)"
    by (auto simp: collect_phase_def split: option.splits loop_exit.splits)
  have "distinct (map link (tweets s))"
    using collect_loop_links [OF l] by (simp add: loop_start_def)
  with a show ?thesis by (rule after_loop_links)
qed

lemma run_links_unique:
  assumes "scrapeTweetsForQuery dateParse budget w maxTweets cookieArray = Some (tr, Inr res)"
  shows "distinct (map (\<lambda>a. link (item a)) res)"
proof -
  from assms obtain tr0 where
    "collect_phase dateParse budget w maxTweets cookieArray tr0 = Some (tr, Inr res)"
    by (auto simp: scrapeTweetsForQuery_def search_phase_def
             split: outcome.splits if_splits)
  then show ?thesis by (rule collect_phase_links)
qed

section \<open>Facts about the item count\<close>

lemma falsy_parse:
  "\<not> truthy v \<Longrightarrow> parseInt v = Number n \<Longrightarrow> v = Num 0 \<and> n = 0"
  by (cases v) (auto simp: parseInt_def parseInt10_def trimStart_def parseDigits_def isSpace_def isDigit_def showInt_def digitsVal_def digitVal_def split: if_splits)

lemma parseInt_one: "parseInt (Num 1) = Number 1"
  by code_simp

section \<open>The examples evaluated\<close>

lemma ex_loop_run:
  "collect_loop (exWorld exTwicePage)
     (Number 1) (Number 12) (loop_start [])
   = Some (LoopDone (merged (loop_start []) exTwicePage))"
  apply (subst collect_loop.simps)
  apply (simp add: loop_guard_def tweetCount_def loop_start_def exWorld_def merged_def)
  apply code_simp
  done

lemma exMixedPage_extract:
  "map tweetText (extractTweetsFromPage exMixedPage) = [''one''] \<and>
   map link (extractTweetsFromPage exMixedPage) = [''https://twitter.com/a/status/1''] \<and>
   map articleText (articles exMixedPage) = [''one'', [], ''three''] \<and>
   map statusLink (articles exMixedPage) = [''https://twitter.com/a/status/1'', ''https://twitter.com/b/status/2'', []] \<and>
   map extractArticle (tl (articles exMixedPage)) = [None, None]"
  by code_simp

lemma ex_runs:
  "scrapeTweetsForQuery exDateParse (Number 12) exBlockedWorld (Number 1) (None :: unit list option)
     = Some ([NewPage, SetViewport, SetExtraHTTPHeaders, SetUserAgent, GotoHome, WaitForTimeout,
              EvalLoggedIn, GotoSearch, EvalBlocked, BrowserClose], Inl LoginRequired)"
  "scrapeTweetsForQuery exDateParse (Number 12) exBlockedWorld (Number 1) (Some [()])
     = Some ([NewPage, SetViewport, SetExtraHTTPHeaders, SetUserAgent, SetCookie, GotoHome,
              WaitForTimeout, EvalLoggedIn, GotoSearch, EvalBlocked, WaitForSelector,
              ExtractTweets 0, BrowserClose],
             Inr [normalize exDateParse (the (extractArticle (exArticle ''/a/status/1'' ''one'' None)))])"
  "scrapeTweetsForQuery exDateParse (Number 2) exEmptyWorld (Number 1) (None :: unit list option)
     = Some ([NewPage, SetViewport, SetExtraHTTPHeaders, SetUserAgent, GotoHome, WaitForTimeout,
              EvalLoggedIn, GotoSearch, EvalBlocked, WaitForSelector,
              ExtractTweets 0, EvalScrollHeight 0, ScrollBy 0,
              ExtractTweets 1, EvalScrollHeight 1, ScrollBy 1,
              ExtractTweets 2, EvalScrollHeight 2, ScrollBy 2, EvalBlocked, BrowserClose],
             Inl LoginRequired)"
  "scrapeTweetsForQuery exDateParse (Number 2) exEmptyWorld (Number 1) (Some [()])
     = Some ([NewPage, SetViewport, SetExtraHTTPHeaders, SetUserAgent, SetCookie, GotoHome,
              WaitForTimeout, EvalLoggedIn, GotoSearch, EvalBlocked, WaitForSelector,
              ExtractTweets 0, EvalScrollHeight 0, ScrollBy 0,
              ExtractTweets 1, EvalScrollHeight 1, ScrollBy 1,
              ExtractTweets 2, EvalScrollHeight 2, ScrollBy 2, EvalBlocked, BrowserClose],
             Inr [])"
  by code_simp+

lemma ex_twice_run:
  "scrapeTweetsForQuery exDateParse (Number 12) (exWorld exTwicePage) (Number 1) (Some [()])
     = Some ([NewPage, SetViewport, SetExtraHTTPHeaders, SetUserAgent, SetCookie, GotoHome,
              WaitForTimeout, EvalLoggedIn, GotoSearch, EvalBlocked, WaitForSelector,
              ExtractTweets 0, BrowserClose],
             Inr [normalize exDateParse
                    (the (extractArticle (exArticle ''/a/status/1'' ''one'' None)))])"
  by code_simp

lemma ex_authenticated: "authenticated exBlockedWorld" "authenticated exEmptyWorld"
  by code_simp+

lemma ex_blocked: "isBlockedOrLoginPage exRateLimitPage"
  by code_simp

lemma ex_empty_loop:
  "collect_loop exEmptyWorld (Number 1) (Number 2)
     (loop_start (loginCalls (None :: unit list option) @ [GotoSearch, EvalBlocked, WaitForSelector]))
     = Some (LoopDone (exEmptyEnd (loginCalls (None :: unit list option)
                                     @ [GotoSearch, EvalBlocked, WaitForSelector])))"
  "collect_loop exEmptyWorld (Number 1) (Number 2)
     (loop_start (loginCalls (Some [()]) @ [GotoSearch, EvalBlocked, WaitForSelector]))
     = Some (LoopDone (exEmptyEnd (loginCalls (Some [()])
                                     @ [GotoSearch, EvalBlocked, WaitForSelector])))"
  by code_simp+

lemma ex_empty_world:
  "searchDocument exEmptyWorld = Resolves (exPage [])" "\<not> isBlockedOrLoginPage (exPage [])"
  "finalDocument exEmptyWorld = Resolves exRateLimitPage" "tweets (exEmptyEnd tr) = []"
  "searchDocument exBlockedWorld = Resolves exRateLimitPage"
  by code_simp+

lemma ex_logged_out:
  "setupResolves exLoggedOutWorld" "homeDocument exLoggedOutWorld = Resolves exLoggedOutPage"
  "\<not> loggedIn exLoggedOutPage"
  by code_simp+

lemma ex_three_loop:
  "collect_loop (exWorld exThreePage) (Number 10) (Number 12) (loop_start []) = Some (LoopDone exThreeEnd)"
  by code_simp

lemma ex_three_facts:
  "length (tweets exThreeEnd) = 3" "scrollAttempts exThreeEnd = 12" "iteration exThreeEnd = 13"
  "stagnantRun (exWorld exThreePage) 13 = 12"
  "collected (exWorld exThreePage) 13 = tweets exThreeEnd"
  by code_simp+

lemma ex_world_heights:
  "loopDocument (exWorld pg) j \<noteq> Rejects"
  "newHeight (exWorld pg) (Suc j) = prevHeight (exWorld pg) (Suc j)"
  by (simp_all add: exWorld_def newHeight_def)

lemma ex_three_batches:
  "tweets exThreeEnd = merge_list [] (batches (exWorld exThreePage) 13)"
  "\<not> js_ge (tweetCount exThreeEnd) (Number 10)"
  "js_ge (Number (scrollAttempts exThreeEnd)) (Number 12)"
  "find (\<lambda>t. link t = ''https://twitter.com/b/status/2'') (tweets exThreeEnd)
     = find (\<lambda>t. link t = ''https://twitter.com/b/status/2'') (batches (exWorld exThreePage) 13)"
  by code_simp+

lemma ex_nan_loop:
  "collect_loop (exWorld exThreePage) NaN (Number 12) (loop_start []) = Some (LoopDone (loop_start []))"
  "\<not> js_ge (tweetCount (loop_start [])) NaN"
  "\<not> js_ge (Number (scrollAttempts (loop_start []))) (Number 12)"
  "maxTweets_of \<lparr>max_tweets_per_run = Undefined, max_tweets = Str ''abc''\<rparr> = NaN"
  by code_simp+

section \<open>The claims\<close>

text \<open>
  C1. The merge of an extracted batch into the running list yields unique permalinks, is
  idempotent (merging the same batch again changes nothing), and on a running list
  with unique permalinks keeps that list as a prefix and, for every non-empty permalink,
  keeps the first item that carries it in running list followed by batch. The list
  the collection loop ends with has unique permalinks, and so has the result a run
  returns.
\<close>

theorem collected_links_unique:
  "distinct (map link (merge ts ns)) \<and>
   merge (merge ts ns) ns = merge ts ns \<and>
   (distinct (map link ts) \<longrightarrow>
      take (length ts) (merge ts ns) = ts \<and>
      (\<forall>k. k \<noteq> [] \<longrightarrow>
         find (\<lambda>t. link t = k) (merge ts ns) = find (\<lambda>t. link t = k) (ts @ ns))) \<and>
   (collect_loop w maxTweets budget (loop_start tr) = Some (LoopDone s') \<longrightarrow>
      distinct (map link (tweets s'))) \<and>
   (scrapeTweetsForQuery dateParse budget w maxTweets cookieArray = Some (tr', Inr res) \<longrightarrow>
      distinct (map (\<lambda>a. link (item a)) res))"
proof -
  have a: "distinct (map link (merge ts ns))" by (rule merge_distinct)
  have b: "merge (merge ts ns) ns = merge ts ns" by (rule merge_idem)
  have c: "take (length ts) (merge ts ns) = ts" if "distinct (map link ts)"
    using that by (simp add: merge_distinct_eq merge_list_prefix)
  have d: "find (\<lambda>t. link t = k) (merge ts ns) = find (\<lambda>t. link t = k) (ts @ ns)"
    if "distinct (map link ts)" "k \<noteq> []" for k
    using that by (simp add: merge_distinct_eq merge_list_find)
  have e: "distinct (map link (tweets s'))"
    if "collect_loop w maxTweets budget (loop_start tr) = Some (LoopDone s')"
    using collect_loop_links [OF that] by (simp add: loop_start_def)
  have f: "distinct (map (\<lambda>a. link (item a)) res)"
    if "scrapeTweetsForQuery dateParse budget w maxTweets cookieArray = Some (tr', Inr res)"
    using that by (rule run_links_unique)
  from a b c d e f show ?thesis by blast
qed

theorem collected_links_unique_witness:
  "distinct (map link [exTweet ''a'' ''first'']) \<and>
   find (\<lambda>t. link t = ''a'')
     (merge [exTweet ''a'' ''first''] [exTweet ''a'' ''second'', exTweet ''b'' ''third''])
     = Some (exTweet ''a'' ''first'') \<and>
   merge [exTweet ''a'' ''first''] [exTweet ''a'' ''second'', exTweet ''b'' ''third'']
     = [exTweet ''a'' ''first'', exTweet ''b'' ''third''] \<and>
   collect_loop (exWorld exTwicePage) (Number 1) (Number 12) (loop_start [])
     = Some (LoopDone (merged (loop_start []) exTwicePage)) \<and>
   distinct (map link (tweets (merged (loop_start []) exTwicePage))) \<and>
   scrapeTweetsForQuery exDateParse (Number 12) (exWorld exTwicePage) (Number 1) (Some [()])
     = Some ([NewPage, SetViewport, SetExtraHTTPHeaders, SetUserAgent, SetCookie, GotoHome,
              WaitForTimeout, EvalLoggedIn, GotoSearch, EvalBlocked, WaitForSelector,
              ExtractTweets 0, BrowserClose],
             Inr [normalize exDateParse
                    (the (extractArticle (exArticle ''/a/status/1'' ''one'' None)))])"
proof -
  have m: "merge [exTweet ''a'' ''first''] [exTweet ''a'' ''second'', exTweet ''b'' ''third'']
       = [exTweet ''a'' ''first'', exTweet ''b'' ''third'']"
    by code_simp
  have d: "distinct (map link [exTweet ''a'' ''first''])" by simp
  show ?thesis
    using collected_links_unique [of "[exTweet ''a'' ''first'']"
       "[exTweet ''a'' ''second'', exTweet ''b'' ''third'']" "exWorld exTwicePage"
       "Number 1" "Number 12" "[]" "merged (loop_start []) exTwicePage" exDateParse "Some [()]"]
      ex_loop_run ex_twice_run d m
    by (simp add: exTweet_def)
qed

text \<open>
  C2. In a run that has passed the login check: when the block check on the search page
  is positive, the run fails with LoginRequired if no cookies were supplied, and
  otherwise continues with the collection phase and never fails with LoginRequired;
  when the loop ends with no items and the block check after it is positive, the run
  fails with LoginRequired if no cookies were supplied and otherwise returns the empty
  result.
\<close>

theorem block_fatal_only_without_cookies:
  assumes "authenticated w"
  shows "(searchDocument w = Resolves pg \<and> isBlockedOrLoginPage pg \<longrightarrow>
            (if noCookies cookieArray
             then scrapeTweetsForQuery dateParse budget w maxTweets cookieArray
                    = Some (loginCalls cookieArray @ [GotoSearch, EvalBlocked, BrowserClose],
                            Inl LoginRequired)
             else scrapeTweetsForQuery dateParse budget w maxTweets cookieArray
                    = collect_phase dateParse budget w maxTweets cookieArray
                        (loginCalls cookieArray @ [GotoSearch, EvalBlocked]) \<and>
                  (\<forall>tr. scrapeTweetsForQuery dateParse budget w maxTweets cookieArray
                          \<noteq> Some (tr, Inl LoginRequired)))) \<and>
         (searchDocument w = Resolves pg \<and> \<not> (isBlockedOrLoginPage pg \<and> noCookies cookieArray) \<and>
          collect_loop w maxTweets budget
            (loop_start (loginCalls cookieArray @ [GotoSearch, EvalBlocked, WaitForSelector]))
            = Some (LoopDone s) \<and>
          tweets s = [] \<and> finalDocument w = Resolves pg' \<and> isBlockedOrLoginPage pg' \<longrightarrow>
            scrapeTweetsForQuery dateParse budget w maxTweets cookieArray
              = Some (calls s @ [EvalBlocked, BrowserClose],
                      if noCookies cookieArray then Inl LoginRequired else Inr []))"
proof -
  note run = scrape_authenticated [OF assms, of dateParse budget maxTweets cookieArray]
  have a: "scrapeTweetsForQuery dateParse budget w maxTweets cookieArray
             = Some (loginCalls cookieArray @ [GotoSearch, EvalBlocked, BrowserClose],
                     Inl LoginRequired)"
    if "searchDocument w = Resolves pg" "isBlockedOrLoginPage pg" "noCookies cookieArray"
    using that by (simp add: run search_phase_def)
  have b: "scrapeTweetsForQuery dateParse budget w maxTweets cookieArray
             = collect_phase dateParse budget w maxTweets cookieArray
                 (loginCalls cookieArray @ [GotoSearch, EvalBlocked])"
    if "searchDocument w = Resolves pg" "\<not> noCookies cookieArray"
    using that by (simp add: run search_phase_def)
  have c: "scrapeTweetsForQuery dateParse budget w maxTweets cookieArray
             \<noteq> Some (tr, Inl LoginRequired)"
    if "searchDocument w = Resolves pg" "\<not> noCookies cookieArray" for tr
    using b [OF that] collect_phase_not_login_required [OF that(2)] by simp
  have d: "scrapeTweetsForQuery dateParse budget w maxTweets cookieArray
              = Some (calls s @ [EvalBlocked, BrowserClose],
                      if noCookies cookieArray then Inl LoginRequired else Inr [])"
    if "searchDocument w = Resolves pg" "\<not> (isBlockedOrLoginPage pg \<and> noCookies cookieArray)"
      "collect_loop w maxTweets budget
            (loop_start (loginCalls cookieArray @ [GotoSearch, EvalBlocked, WaitForSelector]))
            = Some (LoopDone s)"
      "tweets s = []" "finalDocument w = Resolves pg'" "isBlockedOrLoginPage pg'"
  proof -
    have "search_phase dateParse budget w maxTweets cookieArray (loginCalls cookieArray)
            = collect_phase dateParse budget w maxTweets cookieArray
                (loginCalls cookieArray @ [GotoSearch, EvalBlocked])"
      using that(1,2) by (auto simp: search_phase_def)
    then show ?thesis
      using that(3-6) by (simp add: run collect_phase_def after_loop_def sortAndSlice_Nil)
  qed
  from a b c d show ?thesis by (cases "noCookies cookieArray") auto
qed

theorem block_fatal_only_without_cookies_witness:
  "authenticated exBlockedWorld \<and> searchDocument exBlockedWorld = Resolves exRateLimitPage \<and>
   isBlockedOrLoginPage exRateLimitPage \<and> noCookies (None :: unit list option) \<and>
   \<not> noCookies (Some [()]) \<and>
   scrapeTweetsForQuery exDateParse (Number 12) exBlockedWorld (Number 1) (None :: unit list option)
     = Some (loginCalls (None :: unit list option) @ [GotoSearch, EvalBlocked, BrowserClose],
             Inl LoginRequired) \<and>
   scrapeTweetsForQuery exDateParse (Number 12) exBlockedWorld (Number 1) (Some [()])
     = Some ([NewPage, SetViewport, SetExtraHTTPHeaders, SetUserAgent, SetCookie, GotoHome,
              WaitForTimeout, EvalLoggedIn, GotoSearch, EvalBlocked, WaitForSelector,
              ExtractTweets 0, BrowserClose],
             Inr [normalize exDateParse (the (extractArticle (exArticle ''/a/status/1'' ''one'' None)))]) \<and>
   authenticated exEmptyWorld \<and> finalDocument exEmptyWorld = Resolves exRateLimitPage \<and>
   scrapeTweetsForQuery exDateParse (Number 2) exEmptyWorld (Number 1) (None :: unit list option)
     = Some (calls (exEmptyEnd (loginCalls (None :: unit list option)
                                  @ [GotoSearch, EvalBlocked, WaitForSelector]))
               @ [EvalBlocked, BrowserClose], Inl LoginRequired) \<and>
   scrapeTweetsForQuery exDateParse (Number 2) exEmptyWorld (Number 1) (Some [()])
     = Some (calls (exEmptyEnd (loginCalls (Some [()])
                                  @ [GotoSearch, EvalBlocked, WaitForSelector]))
               @ [EvalBlocked, BrowserClose], Inr [])"
  using block_fatal_only_without_cookies [OF ex_authenticated(1), of exRateLimitPage
          "None :: unit list option" exDateParse "Number 12" "Number 1"]
        block_fatal_only_without_cookies [OF ex_authenticated(1), of exRateLimitPage "Some [()]"
          exDateParse "Number 12" "Number 1"]
        block_fatal_only_without_cookies [OF ex_authenticated(2), of "exPage []"
          "None :: unit list option" exDateParse "Number 2" "Number 1"
          "exEmptyEnd (loginCalls (None :: unit list option) @ [GotoSearch, EvalBlocked, WaitForSelector])"
          exRateLimitPage]
        block_fatal_only_without_cookies [OF ex_authenticated(2), of "exPage []" "Some [()]"
          exDateParse "Number 2" "Number 1"
          "exEmptyEnd (loginCalls (Some [()]) @ [GotoSearch, EvalBlocked, WaitForSelector])"
          exRateLimitPage]
        ex_runs(1,2) ex_authenticated ex_blocked ex_empty_loop ex_empty_world
  by (simp add: noCookies_def)

text \<open>
  C3. When the calls before the login check resolve and the landing page fails the check,
  the run fails with LoginRequired whatever the cookies are, having closed the browser,
  and makes no search navigation, no block check and no extraction.
\<close>

theorem login_check_failure_aborts:
  assumes "setupResolves w" and "homeDocument w = Resolves home" and "\<not> loggedIn home"
  shows "scrapeTweetsForQuery dateParse budget w maxTweets cookieArray
           = Some (loginCalls cookieArray @ [SaveDebugFiles, BrowserClose], Inl LoginRequired) \<and>
         GotoSearch \<notin> set (loginCalls cookieArray @ [SaveDebugFiles, BrowserClose]) \<and>
         EvalBlocked \<notin> set (loginCalls cookieArray @ [SaveDebugFiles, BrowserClose]) \<and>
         (\<forall>i. ExtractTweets i \<notin> set (loginCalls cookieArray @ [SaveDebugFiles, BrowserClose]))"
  using assms
  by (simp add: setupResolves_def scrapeTweetsForQuery_def loginCalls_def cookieCalls_def)

theorem login_check_failure_aborts_witness:
  "setupResolves exLoggedOutWorld \<and> homeDocument exLoggedOutWorld = Resolves exLoggedOutPage \<and>
   \<not> loggedIn exLoggedOutPage \<and>
   scrapeTweetsForQuery exDateParse (Number 12) exLoggedOutWorld (Number 5) (Some [()])
     = Some ([NewPage, SetViewport, SetExtraHTTPHeaders, SetUserAgent, SetCookie, GotoHome,
              WaitForTimeout, EvalLoggedIn, SaveDebugFiles, BrowserClose], Inl LoginRequired) \<and>
   scrapeTweetsForQuery exDateParse (Number 12) exLoggedOutWorld (Number 5) (None :: unit list option)
     = Some ([NewPage, SetViewport, SetExtraHTTPHeaders, SetUserAgent, GotoHome,
              WaitForTimeout, EvalLoggedIn, SaveDebugFiles, BrowserClose], Inl LoginRequired)"
  using login_check_failure_aborts [OF ex_logged_out, of exDateParse "Number 12" "Number 5" "Some [()]"]
        login_check_failure_aborts [OF ex_logged_out, of exDateParse "Number 12" "Number 5" "None :: unit list option"]
        ex_logged_out
  by (simp add: loginCalls_def cookieCalls_def noCookies_def)

text \<open>
  C4. The session is not closed on every exit path: when the first extraction throws,
  the exception leaves the run and \<^verbatim>\<open>browser.close()\<close> has not been called.
\<close>

theorem session_left_open_when_extraction_throws:
  "scrapeTweetsForQuery exDateParse (Number 12) exThrowingWorld (Number 5) (Some [()])
     = Some ([NewPage, SetViewport, SetExtraHTTPHeaders, SetUserAgent, SetCookie, GotoHome,
              WaitForTimeout, EvalLoggedIn, GotoSearch, EvalBlocked, WaitForSelector,
              ExtractTweets 0], Inl OtherError) \<and>
   BrowserClose \<notin> set [NewPage, SetViewport, SetExtraHTTPHeaders, SetUserAgent, SetCookie,
              GotoHome, WaitForTimeout, EvalLoggedIn, GotoSearch, EvalBlocked, WaitForSelector,
              ExtractTweets 0]"
  by code_simp

text \<open>
  C5 (amended). For a non-negative item count \<open>n\<close>, the returned list is the first \<open>n\<close>
  items of the collected items arranged by non-increasing sort time, where the sort time
  of an item is its normalized timestamp's time value and is 0 (the epoch) when the
  normalized timestamp is null; the arrangement is a permutation of the collected
  items, items with equal sort time keep their discovery order, and the length of the
  result is the minimum of \<open>n\<close> and the number collected.
\<close>

theorem result_sorted_and_truncated:
  assumes "0 \<le> n"
  shows "sortAndSlice dateParse (Number n) ts
           = take (nat n) (sortNewestFirst (map (normalize dateParse) ts)) \<and>
         length (sortAndSlice dateParse (Number n) ts) = min (nat n) (length ts) \<and>
         mset (sortNewestFirst (map (normalize dateParse) ts)) = mset (map (normalize dateParse) ts) \<and>
         map item (map (normalize dateParse) ts) = ts \<and>
         sorted_wrt (\<lambda>a b. sortTime b \<le> sortTime a) (sortAndSlice dateParse (Number n) ts) \<and>
         (\<forall>k. filter (\<lambda>a. sortTime a = k) (sortNewestFirst (map (normalize dateParse) ts))
               = filter (\<lambda>a. sortTime a = k) (map (normalize dateParse) ts))"
proof -
  let ?xs = "map (normalize dateParse) ts"
  have r: "sortAndSlice dateParse (Number n) ts = take (nat n) (sortNewestFirst ?xs)"
    using assms by (simp add: sortAndSlice_def slice0_def)
  have l: "length (sortNewestFirst ?xs) = length ts"
    by (simp add: sortNewestFirst_def)
  have m: "mset (sortNewestFirst ?xs) = mset ?xs"
    by (simp add: sortNewestFirst_def)
  have i: "map item ?xs = ts"
    by (simp add: normalize_def comp_def)
  have s: "sorted_wrt (\<lambda>a b. sortTime b \<le> sortTime a) (take (nat n) (sortNewestFirst ?xs))"
    by (rule sorted_wrt_take) (rule sortNewestFirst_sorted)
  show ?thesis
    using r l m i s sortNewestFirst_stable by (simp add: min_def)
qed

theorem result_sorted_and_truncated_witness:
  "(0::int) \<le> 1 \<and>
   sortAndSlice exDateParse (Number 1)
     [exDatedTweet ''a'' None, exDatedTweet ''b'' (Some ''1969-12-31T23:59:59.000Z''),
      exDatedTweet ''c'' (Some ''2024-01-01T00:00:00.000Z'')]
   = [\<lparr>item = exDatedTweet ''c'' (Some ''2024-01-01T00:00:00.000Z''),
       timestamp_iso = Some 1704067200000\<rparr>]"
proof -
  have e: "take (nat 1) (sortNewestFirst (map (normalize exDateParse)
     [exDatedTweet ''a'' None, exDatedTweet ''b'' (Some ''1969-12-31T23:59:59.000Z''),
      exDatedTweet ''c'' (Some ''2024-01-01T00:00:00.000Z'')]))
   = [\<lparr>item = exDatedTweet ''c'' (Some ''2024-01-01T00:00:00.000Z''),
       timestamp_iso = Some 1704067200000\<rparr>]"
    by code_simp
  show ?thesis
    using result_sorted_and_truncated [of 1 exDateParse
     "[exDatedTweet ''a'' None, exDatedTweet ''b'' (Some ''1969-12-31T23:59:59.000Z''),
      exDatedTweet ''c'' (Some ''2024-01-01T00:00:00.000Z'')]"] e
    by simp
qed

text \<open>
  The claim as stated fails: an item without a timestamp is placed before an item dated
  one second before the epoch.
\<close>

theorem null_timestamp_not_minimal:
  "\<not> sorted_wrt (\<lambda>a b. nullMinimal_ge (timestamp_iso a) (timestamp_iso b))
       (sortAndSlice exDateParse (Number 2)
          [exDatedTweet ''a'' None, exDatedTweet ''b'' (Some ''1969-12-31T23:59:59.000Z'')])"
  by code_simp

text \<open>
  C6 (amended). The loop started at line 349 ends normally only in a state in which the
  guard of line 349 is false. For a numeric item count \<open>m\<close> and budget \<open>b\<close> that is a state
  with at least \<open>m\<close> items or with the stagnation counter at the budget; when the count
  or the budget is NaN the guard is false at once and the loop returns without running
  its body. The counter is the number of consecutive latest iterations whose height
  reading did not change. The list the loop ends with holds, for every permalink, the
  first item carrying it in the batches extracted, in the order of extraction; ending
  without enough items it holds all batches of the iterations run. In a state where
  the guard is false the loop ends at once; where it is true and the extraction
  succeeds the body runs once more. If no extraction throws and from some iteration on
  the height no longer changes, the loop ends normally, whatever count and budget are.
\<close>

theorem collection_loop_exit:
  "(collect_loop w maxTweets budget (loop_start tr) = Some (LoopDone sf) \<longrightarrow>
      \<not> (js_lt (tweetCount sf) maxTweets \<and> js_lt (Number (scrollAttempts sf)) budget) \<and>
      (maxTweets = Number m \<and> budget = Number b \<longrightarrow>
         m \<le> int (length (tweets sf)) \<or> b \<le> scrollAttempts sf) \<and>
      scrollAttempts sf = stagnantRun w (iteration sf) \<and>
      (tweets sf = merge_list [] (batches w (iteration sf)) \<or>
       tweets sf = merge_list [] (batches w (Suc (iteration sf)))) \<and>
      (\<not> js_ge (tweetCount sf) maxTweets \<longrightarrow>
         tweets sf = merge_list [] (batches w (iteration sf)) \<and>
         (\<forall>k. k \<noteq> [] \<longrightarrow>
            find (\<lambda>t. link t = k) (tweets sf)
              = find (\<lambda>t. link t = k) (batches w (iteration sf))))) \<and>
   (\<not> (js_lt (tweetCount s) maxTweets \<and> js_lt (Number (scrollAttempts s)) budget) \<longrightarrow>
      collect_loop w maxTweets budget s = Some (LoopDone s)) \<and>
   (m \<le> int (length (tweets s)) \<or> b \<le> scrollAttempts s \<longrightarrow>
      collect_loop w (Number m) (Number b) s = Some (LoopDone s)) \<and>
   (maxTweets = NaN \<or> budget = NaN \<longrightarrow>
      collect_loop w maxTweets budget s = Some (LoopDone s)) \<and>
   (js_lt (tweetCount s) maxTweets \<and> js_lt (Number (scrollAttempts s)) budget \<and>
    loopDocument w (iteration s) = Resolves pg \<longrightarrow>
      collect_loop w maxTweets budget s
        = (if js_ge (tweetCount (merged s pg)) maxTweets then Some (LoopDone (merged s pg))
           else collect_loop w maxTweets budget (scrolled w (merged s pg)))) \<and>
   (int (length (tweets s)) < m \<and> scrollAttempts s < b \<and>
    loopDocument w (iteration s) = Resolves pg \<longrightarrow>
      collect_loop w (Number m) (Number b) s
        = (if m \<le> int (length (tweets (merged s pg))) then Some (LoopDone (merged s pg))
           else collect_loop w (Number m) (Number b) (scrolled w (merged s pg)))) \<and>
   ((\<forall>j. loopDocument w j \<noteq> Rejects) \<and> (\<forall>j\<ge>i0. newHeight w j = prevHeight w j) \<longrightarrow>
      (\<exists>s''. collect_loop w maxTweets budget (loop_start tr) = Some (LoopDone s'')))"
proof -
  have a: "\<not> (js_lt (tweetCount sf) maxTweets \<and> js_lt (Number (scrollAttempts sf)) budget) \<and>
      (maxTweets = Number m \<and> budget = Number b \<longrightarrow>
         m \<le> int (length (tweets sf)) \<or> b \<le> scrollAttempts sf) \<and>
      scrollAttempts sf = stagnantRun w (iteration sf) \<and>
      (tweets sf = merge_list [] (batches w (iteration sf)) \<or>
       tweets sf = merge_list [] (batches w (Suc (iteration sf)))) \<and>
      (\<not> js_ge (tweetCount sf) maxTweets \<longrightarrow>
         tweets sf = merge_list [] (batches w (iteration sf)) \<and>
         (\<forall>k. k \<noteq> [] \<longrightarrow>
            find (\<lambda>t. link t = k) (tweets sf)
              = find (\<lambda>t. link t = k) (batches w (iteration sf))))"
    if "collect_loop w maxTweets budget (loop_start tr) = Some (LoopDone sf)"
  proof -
    from collect_loop_post [OF that loop_inv_start]
    have c: "scrollAttempts sf = stagnantRun w (iteration sf)"
      and d: "(\<not> loop_guard maxTweets budget sf \<and> tweets sf = collected w (iteration sf)) \<or>
              (js_ge (tweetCount sf) maxTweets \<and> tweets sf = collected w (Suc (iteration sf)))"
      by (simp_all add: loop_post_def)
    have g: "\<not> loop_guard maxTweets budget sf"
      using d by (cases maxTweets; cases budget) (auto simp: loop_guard_def tweetCount_def)
    have n: "m \<le> int (length (tweets sf)) \<or> b \<le> scrollAttempts sf"
      if "maxTweets = Number m \<and> budget = Number b"
      using g that by (auto simp: loop_guard_def tweetCount_def)
    have e: "tweets sf = collected w (iteration sf)" if "\<not> js_ge (tweetCount sf) maxTweets"
      using d that by auto
    show ?thesis
      using c d g n e
      by (auto simp: loop_guard_def collected_find simp flip: collected_batches)
  qed
  have b: "collect_loop w maxTweets budget s = Some (LoopDone s)"
    if "\<not> (js_lt (tweetCount s) maxTweets \<and> js_lt (Number (scrollAttempts s)) budget)"
    using that by (intro loop_skipped) (simp add: loop_guard_def)
  have b': "collect_loop w (Number m) (Number b) s = Some (LoopDone s)"
    if "m \<le> int (length (tweets s)) \<or> b \<le> scrollAttempts s"
    using that by (intro loop_skipped) (auto simp: loop_guard_def tweetCount_def)
  have b'': "collect_loop w maxTweets budget s = Some (LoopDone s)"
    if "maxTweets = NaN \<or> budget = NaN"
    using that by (intro loop_skipped loop_guard_NaN)
  have c: "collect_loop w maxTweets budget s
        = (if js_ge (tweetCount (merged s pg)) maxTweets then Some (LoopDone (merged s pg))
           else collect_loop w maxTweets budget (scrolled w (merged s pg)))"
    if "js_lt (tweetCount s) maxTweets \<and> js_lt (Number (scrollAttempts s)) budget \<and>
        loopDocument w (iteration s) = Resolves pg"
    using that by (subst collect_loop.simps) (simp add: loop_guard_def)
  have c': "collect_loop w (Number m) (Number b) s
        = (if m \<le> int (length (tweets (merged s pg))) then Some (LoopDone (merged s pg))
           else collect_loop w (Number m) (Number b) (scrolled w (merged s pg)))"
    if "int (length (tweets s)) < m \<and> scrollAttempts s < b \<and>
        loopDocument w (iteration s) = Resolves pg"
    using that by (subst collect_loop.simps) (simp add: loop_guard_def tweetCount_def)
  have d: "\<exists>s''. collect_loop w maxTweets budget (loop_start tr) = Some (LoopDone s'')"
    if "(\<forall>j. loopDocument w j \<noteq> Rejects) \<and> (\<forall>j\<ge>i0. newHeight w j = prevHeight w j)"
    using that by (intro loop_terminates_any [of w i0]) (simp_all add: loop_start_def)
  from a b b' b'' c c' d show ?thesis by blast
qed

theorem collection_loop_exit_witness:
  "collect_loop (exWorld exThreePage) (Number 10) (Number 12) (loop_start [])
     = Some (LoopDone exThreeEnd) \<and>
   length (tweets exThreeEnd) = 3 \<and> scrollAttempts exThreeEnd = 12 \<and>
   \<not> js_ge (tweetCount exThreeEnd) (Number 10) \<and>
   stagnantRun (exWorld exThreePage) (iteration exThreeEnd) = 12 \<and>
   tweets exThreeEnd = merge_list [] (batches (exWorld exThreePage) (iteration exThreeEnd)) \<and>
   collect_loop (exWorld exThreePage) (Number 10) (Number 12) exThreeEnd
     = Some (LoopDone exThreeEnd) \<and>
   collect_loop (exWorld exThreePage) NaN (Number 12) (loop_start [])
     = Some (LoopDone (loop_start [])) \<and>
   (\<forall>j. loopDocument (exWorld exThreePage) j \<noteq> Rejects) \<and>
   (\<forall>j. newHeight (exWorld exThreePage) (Suc j) = prevHeight (exWorld exThreePage) (Suc j))"
proof -
  have h: "\<forall>j\<ge>1. newHeight (exWorld exThreePage) j = prevHeight (exWorld exThreePage) j"
  proof (intro allI impI)
    fix j :: nat
    assume "1 \<le> j"
    then obtain k where "j = Suc k" by (cases j) auto
    then show "newHeight (exWorld exThreePage) j = prevHeight (exWorld exThreePage) j"
      by (simp only: ex_world_heights)
  qed
  show ?thesis
    using collection_loop_exit [where w = "exWorld exThreePage" and maxTweets = "Number 10"
        and budget = "Number 12" and tr = "[]" and sf = exThreeEnd and s = exThreeEnd
        and m = 10 and b = 12 and pg = exThreePage and ?i0.0 = 1]
      collection_loop_exit [where w = "exWorld exThreePage" and maxTweets = NaN
        and budget = "Number 12" and tr = "[]" and sf = "loop_start []" and s = "loop_start []"
        and m = 10 and b = 12 and pg = exThreePage and ?i0.0 = 1]
      ex_three_loop ex_three_facts ex_three_batches(1,2) ex_nan_loop(1) ex_world_heights h
    by simp
qed

text \<open>
  The claim as stated fails when the item count is NaN, which line 413 passes for a
  count that does not parse: the loop ends before its first iteration, with no item
  and a counter of zero, so with neither of the two conditions.
\<close>

theorem loop_skipped_when_count_is_NaN:
  "collect_loop (exWorld exThreePage) NaN (Number 12) (loop_start [])
     = Some (LoopDone (loop_start [])) \<and>
   \<not> js_ge (tweetCount (loop_start [])) NaN \<and>
   \<not> js_ge (Number (scrollAttempts (loop_start []))) (Number 12) \<and>
   maxTweets_of \<lparr>max_tweets_per_run = Undefined, max_tweets = Str ''abc''\<rparr> = NaN"
  using ex_nan_loop by simp

text \<open>
  C7 (amended). One pass of the extractor does not deduplicate: it emits one item per
  article that has non-empty text and a permalink, in document order, so the emitted
  permalinks are those of these articles, repetitions included. Permalinks are unique
  once the batch has been merged into the running list.
\<close>

theorem extractor_keeps_repeated_links:
  "map link (extractTweetsFromPage pg) = map statusLink (filter candidate (articles pg)) \<and>
   distinct (map link (merge ts (extractTweetsFromPage pg)))"
  by (simp add: extractTweetsFromPage_def map_filter_links merge_distinct)

text \<open>The claim as stated fails on a snapshot that renders the same post twice.\<close>

theorem extractor_not_deduplicated:
  "\<not> distinct (map link (extractTweetsFromPage exTwicePage))"
  by code_simp

text \<open>
  C8. Every item the extractor emits has non-empty text and a non-empty permalink, and
  an article whose trimmed text is empty or that has no status link yields no item.
\<close>

theorem extracted_items_have_text_and_link:
  "(\<forall>t \<in> set (extractTweetsFromPage pg). tweetText t \<noteq> [] \<and> link t \<noteq> []) \<and>
   (\<forall>a \<in> set (articles pg).
      articleText a = [] \<or> statusLink a = [] \<longrightarrow> extractArticle a = None)"
proof -
  have "tweetText t \<noteq> [] \<and> link t \<noteq> []" if "t \<in> set (extractTweetsFromPage pg)" for t
  proof -
    from that obtain a where "extractArticle a = Some t"
      by (auto simp: extractTweetsFromPage_def List.map_filter_def)
    from extractArticle_Some [OF this] show ?thesis by (simp add: candidate_def)
  qed
  moreover have "extractArticle a = None" if "articleText a = [] \<or> statusLink a = []" for a
    using that by (auto simp: extractArticle_def)
  ultimately show ?thesis by blast
qed

theorem extracted_items_have_text_and_link_witness:
  "map tweetText (extractTweetsFromPage exMixedPage) = [''one''] \<and>
   map link (extractTweetsFromPage exMixedPage) = [''https://twitter.com/a/status/1''] \<and>
   map articleText (articles exMixedPage) = [''one'', [], ''three''] \<and>
   map statusLink (articles exMixedPage) = [''https://twitter.com/a/status/1'', ''https://twitter.com/b/status/2'', []] \<and>
   map extractArticle (tl (articles exMixedPage)) = [None, None]"
  using extracted_items_have_text_and_link [of exMixedPage] exMixedPage_extract by simp

text \<open>
  C9. The like count is not always a number: when the first run of digits and commas in
  the like control's label consists of commas only, stripping them leaves the empty
  string and \<^verbatim>\<open>parseInt\<close> returns NaN, which the emitted item then carries.
\<close>

theorem like_count_NaN_on_leading_comma:
  "extractLikes (Some exCommaLike) = NaN \<and>
   map likes (extractTweetsFromPage exCommaPage) = [NaN]"
  by code_simp

text \<open>
  C10. When both count fields are absent the run is asked for one item; when one of them
  is absent and \<^verbatim>\<open>parseInt\<close> reads the other as the integer \<open>n\<close>, the run is asked for
  \<open>max 1 n\<close> items. When both are present, \<^verbatim>\<open>max_tweets_per_run\<close> is the field read if
  it is truthy, and \<^verbatim>\<open>max_tweets\<close> otherwise.
\<close>

theorem maxTweets_at_least_one:
  "(max_tweets_per_run b = Undefined \<and> max_tweets b = Undefined \<longrightarrow>
      maxTweets_of b = Number 1) \<and>
   (max_tweets_per_run b = Undefined \<and> parseInt (max_tweets b) = Number n \<longrightarrow>
      maxTweets_of b = Number (max 1 n)) \<and>
   (max_tweets b = Undefined \<and> parseInt (max_tweets_per_run b) = Number n \<longrightarrow>
      maxTweets_of b = Number (max 1 n)) \<and>
   (truthy (max_tweets_per_run b) \<and> parseInt (max_tweets_per_run b) = Number n \<longrightarrow>
      maxTweets_of b = Number (max 1 n)) \<and>
   (\<not> truthy (max_tweets_per_run b) \<and> parseInt (max_tweets b) = Number n \<longrightarrow>
      maxTweets_of b = Number (max 1 n))"
proof -
  have one: "maxTweets_of b = Number (max 1 n)"
    if "js_or (js_or (max_tweets_per_run b) (max_tweets b)) (Num 1) = (if truthy v then v else Num 1)"
      and "parseInt v = Number n" for v
  proof (cases "truthy v")
    case True
    then show ?thesis using that by (simp add: maxTweets_of_def)
  next
    case False
    then have "n = 0" using falsy_parse that(2) by blast
    then show ?thesis using False that(1) by (simp add: maxTweets_of_def parseInt_one)
  qed
  have a: "maxTweets_of b = Number 1"
    if "max_tweets_per_run b = Undefined \<and> max_tweets b = Undefined"
    using that by (simp add: maxTweets_of_def js_or_def parseInt_one)
  have b: "maxTweets_of b = Number (max 1 n)"
    if "max_tweets_per_run b = Undefined \<and> parseInt (max_tweets b) = Number n"
    using that by (intro one [of "max_tweets b"]) (simp_all add: js_or_def)
  have c: "maxTweets_of b = Number (max 1 n)"
    if "max_tweets b = Undefined \<and> parseInt (max_tweets_per_run b) = Number n"
    using that by (intro one [of "max_tweets_per_run b"]) (simp_all add: js_or_def)
  have d: "maxTweets_of b = Number (max 1 n)"
    if "truthy (max_tweets_per_run b) \<and> parseInt (max_tweets_per_run b) = Number n"
    using that by (intro one [of "max_tweets_per_run b"]) (simp_all add: js_or_def)
  have e: "maxTweets_of b = Number (max 1 n)"
    if "\<not> truthy (max_tweets_per_run b) \<and> parseInt (max_tweets b) = Number n"
    using that by (intro one [of "max_tweets b"]) (simp_all add: js_or_def)
  from a b c d e show ?thesis by blast
qed

theorem maxTweets_at_least_one_witness:
  "max_tweets_per_run \<lparr>max_tweets_per_run = Undefined, max_tweets = Str ''-3''\<rparr> = Undefined \<and>
   parseInt (Str ''-3'') = Number (- 3) \<and>
   maxTweets_of \<lparr>max_tweets_per_run = Undefined, max_tweets = Str ''-3''\<rparr> = Number 1 \<and>
   parseInt (Num 25) = Number 25 \<and>
   maxTweets_of \<lparr>max_tweets_per_run = Num 25, max_tweets = Undefined\<rparr> = Number 25"
proof -
  have p: "parseInt (Str ''-3'') = Number (- 3)" "parseInt (Num 25) = Number 25"
    by code_simp+
  show ?thesis
    using maxTweets_at_least_one [of "\<lparr>max_tweets_per_run = Undefined, max_tweets = Str ''-3''\<rparr>" "- 3"]
      maxTweets_at_least_one [of "\<lparr>max_tweets_per_run = Num 25, max_tweets = Undefined\<rparr>" 25] p
    by simp
qed

end
